theory Spec2Isabelle
  imports Complex_Main "HOL-Library.Word" "HOL-Library.Multiset" "HOL-Library.Sublist"
begin

section \<open>JavaScript values, as far as the property tree looks at them\<close>

text \<open>
  A JavaScript string is a sequence of UTF-16 code units: \<open>length\<close> and \<open>slice\<close> count
  code units, so a string is a list of 16-bit words. \<open>str\<close> embeds an ASCII literal.
\<close>

type_synonym jsstring = "16 word list"

definition str :: "string \<Rightarrow> jsstring" where
  "str s = map (\<lambda>c. of_nat (of_char c)) s"

definition newline :: "16 word" where
  "newline = 10"

definition dquote :: "16 word" where
  "dquote = 34"

text \<open>Decimal digits of a natural number (template literals and \<open>String\<close> of a bigint).\<close>

fun digits10 :: "nat \<Rightarrow> jsstring" where
  "digits10 n = (if n < 10 then [of_nat (48 + n)]
                 else digits10 (n div 10) @ [of_nat (48 + n mod 10)])"

declare digits10.simps [simp del]

text \<open>
  A number is a double: a finite value (every finite double is a rational), \<open>NaN\<close> or an
  infinity. The sign of zero plays no role in the code (\<open>-0 < 0\<close> is false and
  \<open>-0 === 0\<close> is true), so both zeros are \<open>Finite 0\<close>.
\<close>

datatype jsnum = Finite rat | NaN | PosInfinity | NegInfinity

type_synonym addr = nat

datatype jsval =
    VUndefined
  | VNull
  | VBoolean bool
  | VNumber jsnum
  | VString jsstring
  | VSymbol jsstring
  | VBigint int
  | VFunction addr
  | VObject addr

text \<open>
  Reading a property runs arbitrary accessor code: it returns a value or raises, and it may
  depend on and change state outside the inspected object graph (a counter in a closure,
  a clock). That state is the \<open>world\<close>. In the sections up to \<open>logPropertyTree\<close> the
  object graph itself is not changed by accessors and objects are ordinary objects (no
  proxies). The section on objects in general drops both restrictions; on ordinary objects
  the two traversals agree (\<open>buildPropertyTree_ordinary\<close>).
\<close>

type_synonym world = nat

datatype outcome = Returns jsval | Throws

datatype property =
    Data jsval
  | Accessor "world \<Rightarrow> outcome \<times> world"
  | SetterOnly

text \<open>
  An array holds its elements by index; an object holds its own enumerable string-keyed
  properties in the order \<open>Object.keys\<close> lists them, each with its descriptor.
  The heap gives the object behind every reference.
\<close>

datatype jsobj = JArray "property list" | JObject "(jsstring \<times> property) list"

type_synonym heap = "addr \<Rightarrow> jsobj"

section \<open>Constants, errors and the tree node\<close>

definition CIRCULAR_REFERENCE_MARKER :: jsstring where
  "CIRCULAR_REFERENCE_MARKER = str ''[Circular Reference]''"

definition ACCESS_ERROR_MARKER :: jsstring where
  "ACCESS_ERROR_MARKER = str ''[Access Error]''"

text \<open>
  An error that leaves \<open>buildPropertyTree\<close> is the \<open>InvalidDepthError\<close> of the validation
  with the offending depth, or an exception of the host that no \<open>try\<close> block catches: the
  \<open>TypeError\<close> that \<open>Array.isArray\<close> and the other operations raise on a revoked proxy, or
  whatever a proxy trap raised (\<open>Thrown\<close>). Ordinary objects raise none of the latter.
\<close>

datatype exn = TypeError | Thrown

datatype error = InvalidDepthError (depth_of: jsnum) | Uncaught exn

text \<open>
  \<open>PropertyType\<close>: the spec's kinds are \<open>composite\<close> = \<open>TObject\<close>, \<open>list\<close> = \<open>TArray\<close>,
  \<open>text\<close> = \<open>TString\<close>, \<open>integer-or-float\<close> = \<open>TNumber\<close>, \<open>callable\<close> = \<open>TFunction\<close>,
  \<open>unique-symbol\<close> = \<open>TSymbol\<close>, \<open>big-integer\<close> = \<open>TBigint\<close>, \<open>absent\<close> = \<open>TUndefined\<close>,
  \<open>nothing\<close> = \<open>TNull\<close> and \<open>access-error\<close> = \<open>TError\<close>.
\<close>

datatype PropertyType =
    TObject | TArray | TString | TNumber | TBoolean | TFunction
  | TSymbol | TBigint | TUndefined | TNull | TError

fun type_name :: "PropertyType \<Rightarrow> jsstring" where
  "type_name TObject = str ''object''"
| "type_name TArray = str ''array''"
| "type_name TString = str ''string''"
| "type_name TNumber = str ''number''"
| "type_name TBoolean = str ''boolean''"
| "type_name TFunction = str ''function''"
| "type_name TSymbol = str ''symbol''"
| "type_name TBigint = str ''bigint''"
| "type_name TUndefined = str ''undefined''"
| "type_name TNull = str ''null''"
| "type_name TError = str ''error''"

text \<open>
  \<open>PropertyTreeNode\<close>: \<open>nvalue\<close> and \<open>children\<close> are the optional attributes \<open>value\<close> and
  \<open>children\<close>; \<open>None\<close> is an attribute that was never assigned.
\<close>

datatype PropertyTreeNode =
  Node (name: jsstring) (ntype: PropertyType) (nvalue: "jsval option")
       (children: "PropertyTreeNode list option")

text \<open>
  A node under construction is mutated through references held by the work queue. Every
  node is attached to one parent when it is created, so a reference to a node is its path
  from the root: the list of child indices. A path that leads nowhere is a node that is not
  reachable from the root; writing through it leaves the tree unchanged.
\<close>

type_synonym noderef = "nat list"

text \<open>
  \<open>WorkItem\<close>: \<open>obj\<close> is the reference of the container to expand, \<open>wname\<close> the field
  \<open>name\<close> (kept for context only, as in the source), \<open>parent\<close> the reference of the node
  that receives the children, \<open>visited\<close> the set of references on the current path.
\<close>

record WorkItem =
  obj :: addr
  wname :: jsstring
  depth :: nat
  parent :: noderef
  visited :: "addr set"

section \<open>getPropertyType\<close>

text \<open>
  \<open>typeof\<close> has the eight results of the language. The \<open>default\<close> branch of the
  \<open>switch\<close> (an unexpected result, classified as error) is kept in the model; no value
  reaches it.
\<close>

fun typeof :: "jsval \<Rightarrow> string" where
  "typeof VUndefined = ''undefined''"
| "typeof VNull = ''object''"
| "typeof (VBoolean b) = ''boolean''"
| "typeof (VNumber n) = ''number''"
| "typeof (VString s) = ''string''"
| "typeof (VSymbol d) = ''symbol''"
| "typeof (VBigint i) = ''bigint''"
| "typeof (VFunction f) = ''function''"
| "typeof (VObject a) = ''object''"

text \<open>
  \<open>Array.isArray\<close> on a value of this heap: it answers without raising, since the objects
  are ordinary (on a revoked proxy it raises, see \<open>isArray_full\<close>).
\<close>

definition isArray :: "heap \<Rightarrow> jsval \<Rightarrow> bool" where
  "isArray h v = (case v of
       VObject a \<Rightarrow> (case h a of JArray es \<Rightarrow> True | JObject ps \<Rightarrow> False)
     | _ \<Rightarrow> False)"

definition getPropertyType :: "heap \<Rightarrow> jsval \<Rightarrow> PropertyType" where
  "getPropertyType h v =
     (if v = VNull then TNull
      else if isArray h v then TArray
      else let t = typeof v in
        if t = ''string'' then TString
        else if t = ''number'' then TNumber
        else if t = ''boolean'' then TBoolean
        else if t = ''function'' then TFunction
        else if t = ''symbol'' then TSymbol
        else if t = ''bigint'' then TBigint
        else if t = ''undefined'' then TUndefined
        else if t = ''object'' then TObject
        else TError)"

section \<open>Writing into the tree under construction\<close>

fun node_at :: "PropertyTreeNode \<Rightarrow> noderef \<Rightarrow> PropertyTreeNode option" where
  "node_at t [] = Some t"
| "node_at (Node n ty v cs) (i # p) =
     (case cs of
        None \<Rightarrow> None
      | Some xs \<Rightarrow> if i < length xs then node_at (xs ! i) p else None)"

fun update_at :: "noderef \<Rightarrow> (PropertyTreeNode \<Rightarrow> PropertyTreeNode)
    \<Rightarrow> PropertyTreeNode \<Rightarrow> PropertyTreeNode" where
  "update_at [] f t = f t"
| "update_at (i # p) f (Node n ty v cs) =
     Node n ty v (case cs of
        None \<Rightarrow> None
      | Some xs \<Rightarrow> Some (if i < length xs then xs[i := update_at p f (xs ! i)] else xs))"

text \<open>\<open>parentNode.children?.push(childNode)\<close>: nothing happens without a children array.\<close>

fun push :: "PropertyTreeNode \<Rightarrow> PropertyTreeNode \<Rightarrow> PropertyTreeNode" where
  "push child (Node n ty v cs) =
     Node n ty v (case cs of None \<Rightarrow> None | Some xs \<Rightarrow> Some (xs @ [child]))"

text \<open>The reference of a node that is pushed next onto the children of the node at \<open>p\<close>.\<close>

definition next_child :: "PropertyTreeNode \<Rightarrow> noderef \<Rightarrow> noderef" where
  "next_child rootNode p =
     p @ [case node_at rootNode p of
            Some (Node n ty v (Some xs)) \<Rightarrow> length xs
          | _ \<Rightarrow> 0]"

section \<open>processChild\<close>

text \<open>
  The child node is created, pushed and then completed by assignments; nothing reads it in
  between, so the model pushes the completed node. \<open>keyOrIndex\<close> is always passed as a
  string by the two callers.
\<close>

definition processChild :: "heap \<Rightarrow> noderef \<Rightarrow> jsstring \<Rightarrow> jsval \<Rightarrow> nat \<Rightarrow> nat \<Rightarrow> addr set
    \<Rightarrow> PropertyTreeNode \<times> WorkItem list \<Rightarrow> PropertyTreeNode \<times> WorkItem list" where
  "processChild h parentNode keyOrIndex val currentDepth maxDepth visitedSet s =
     (case s of (rootNode, queue) \<Rightarrow>
      let childName = keyOrIndex;
          childType = getPropertyType h val;
          childRef = next_child rootNode parentNode;
          childValue = (if childType \<noteq> TObject \<and> childType \<noteq> TArray \<and> childType \<noteq> TFunction
                        then Some val else None)
      in if currentDepth + 1 < maxDepth \<and> (childType = TObject \<or> childType = TArray)
            \<and> val \<noteq> VNull
         then (case val of
             VObject a \<Rightarrow>
               if a \<in> visitedSet
               then (update_at parentNode
                       (push (Node childName childType
                                (Some (VString CIRCULAR_REFERENCE_MARKER)) None)) rootNode,
                     queue)
               else (update_at parentNode
                       (push (Node childName childType childValue (Some []))) rootNode,
                     queue @ [\<lparr>obj = a, wname = childName, depth = currentDepth + 1,
                               parent = childRef, visited = insert a visitedSet\<rparr>])
           | _ \<Rightarrow> (update_at parentNode
                     (push (Node childName childType childValue None)) rootNode, queue))
         else (update_at parentNode
                 (push (Node childName childType childValue None)) rootNode, queue))"

section \<open>buildPropertyTree\<close>

text \<open>\<open>currentObj[i]\<close> and \<open>currentRecord[key]\<close>: the ordinary property read.\<close>

fun get_member :: "property \<Rightarrow> world \<Rightarrow> outcome \<times> world" where
  "get_member (Data v) w = (Returns v, w)"
| "get_member (Accessor g) w = g w"
| "get_member SetterOnly w = (Returns VUndefined, w)"

text \<open>
  The body of the \<open>try\<close> block of the object loop up to the call of \<open>processChild\<close>: a
  getter is invoked, a data descriptor gives its value, anything else gives \<open>undefined\<close>.
  \<open>Object.keys\<close> lists own properties only, so for an ordinary object that no accessor
  changes the descriptor is always defined (\<open>resolve_key\<close> has the other case).
\<close>

fun resolve_descriptor :: "property \<Rightarrow> world \<Rightarrow> outcome \<times> world" where
  "resolve_descriptor (Accessor g) w = get_member (Accessor g) w"
| "resolve_descriptor (Data v) w = (Returns v, w)"
| "resolve_descriptor SetterOnly w = (Returns VUndefined, w)"

text \<open>
  One round of either loop: \<open>try { read; processChild } catch { push the error node }\<close>.
  On ordinary objects \<open>processChild\<close> itself never raises.
\<close>

definition try_child :: "heap \<Rightarrow> nat \<Rightarrow> WorkItem \<Rightarrow> jsstring \<Rightarrow> (world \<Rightarrow> outcome \<times> world)
    \<Rightarrow> PropertyTreeNode \<times> WorkItem list \<times> world \<Rightarrow> PropertyTreeNode \<times> WorkItem list \<times> world"
  where
  "try_child h maxDepth item label rd s =
     (case s of (rootNode, queue, w) \<Rightarrow>
       (case rd w of
          (Returns v, w') \<Rightarrow>
            (case processChild h (parent item) label v (depth item) maxDepth (visited item)
                    (rootNode, queue) of
               (rootNode', queue') \<Rightarrow> (rootNode', queue', w'))
        | (Throws, w') \<Rightarrow>
            (update_at (parent item)
               (push (Node label TError (Some (VString ACCESS_ERROR_MARKER)) None)) rootNode,
             queue, w')))"

definition index_label :: "nat \<Rightarrow> jsstring" where
  "index_label i = str ''['' @ digits10 i @ str '']''"

fun for_elements :: "heap \<Rightarrow> nat \<Rightarrow> WorkItem \<Rightarrow> nat \<Rightarrow> property list
    \<Rightarrow> PropertyTreeNode \<times> WorkItem list \<times> world \<Rightarrow> PropertyTreeNode \<times> WorkItem list \<times> world"
  where
  "for_elements h maxDepth item i [] s = s"
| "for_elements h maxDepth item i (e # es) s =
     for_elements h maxDepth item (i + 1) es
       (try_child h maxDepth item (index_label i) (get_member e) s)"

fun for_keys :: "heap \<Rightarrow> nat \<Rightarrow> WorkItem \<Rightarrow> (jsstring \<times> property) list
    \<Rightarrow> PropertyTreeNode \<times> WorkItem list \<times> world \<Rightarrow> PropertyTreeNode \<times> WorkItem list \<times> world"
  where
  "for_keys h maxDepth item [] s = s"
| "for_keys h maxDepth item ((key, d) # ps) s =
     for_keys h maxDepth item ps
       (try_child h maxDepth item key (resolve_descriptor d) s)"

text \<open>
  The body of the \<open>while\<close> loop for the item taken from the front of the queue. On an
  ordinary object neither \<open>Array.isArray\<close> nor \<open>currentObj.length\<close> nor \<open>Object.keys\<close>
  raises, and the length and the keys are those of the object.
\<close>

definition expand_item :: "heap \<Rightarrow> nat \<Rightarrow> WorkItem
    \<Rightarrow> PropertyTreeNode \<times> WorkItem list \<times> world \<Rightarrow> PropertyTreeNode \<times> WorkItem list \<times> world"
  where
  "expand_item h maxDepth item s =
     (case h (obj item) of
        JArray es \<Rightarrow> for_elements h maxDepth item 0 es s
      | JObject ps \<Rightarrow> for_keys h maxDepth item ps s)"

text \<open>
  The loop ends: the item taken from the queue is replaced by items one level deeper, all
  below \<open>maxDepth\<close>, so the multiset of remaining levels of the queue decreases.
\<close>

definition fresh_items :: "nat \<Rightarrow> WorkItem \<Rightarrow> WorkItem list \<Rightarrow> WorkItem list \<Rightarrow> bool" where
  "fresh_items maxDepth item queue queue' =
     (\<exists>new. queue' = queue @ new
        \<and> (\<forall>n \<in> set new. depth n = depth item + 1 \<and> depth n < maxDepth))"

lemma fresh_items_refl: "fresh_items maxDepth item queue queue"
  by (simp add: fresh_items_def)

lemma fresh_items_trans:
  "fresh_items maxDepth item q1 q2 \<Longrightarrow> fresh_items maxDepth item q2 q3
     \<Longrightarrow> fresh_items maxDepth item q1 q3"
proof -
  assume "fresh_items maxDepth item q1 q2" and "fresh_items maxDepth item q2 q3"
  then obtain new1 new2 where q2: "q2 = q1 @ new1" and q3: "q3 = q2 @ new2"
    and n1: "\<forall>n \<in> set new1. depth n = depth item + 1 \<and> depth n < maxDepth"
    and n2: "\<forall>n \<in> set new2. depth n = depth item + 1 \<and> depth n < maxDepth"
    unfolding fresh_items_def by blast
  from q2 q3 have "q3 = q1 @ (new1 @ new2)" by simp
  moreover from n1 n2
  have "\<forall>n \<in> set (new1 @ new2). depth n = depth item + 1 \<and> depth n < maxDepth"
    by auto
  ultimately show ?thesis unfolding fresh_items_def by blast
qed

lemma processChild_fresh:
  "processChild h (parent item) label v (depth item) maxDepth (visited item) (t, q) = (t', q')
     \<Longrightarrow> fresh_items maxDepth item q q'"
  by (auto simp: processChild_def fresh_items_def Let_def split: if_splits jsval.splits)

lemma try_child_fresh:
  "try_child h maxDepth item label rd (t, q, w) = (t', q', w')
     \<Longrightarrow> fresh_items maxDepth item q q'"
  by (auto simp: try_child_def fresh_items_refl split: prod.splits outcome.splits
           dest: processChild_fresh)

lemma for_elements_fresh:
  "for_elements h maxDepth item i es (t, q, w) = (t', q', w')
     \<Longrightarrow> fresh_items maxDepth item q q'"
proof (induction es arbitrary: i t q w)
  case Nil
  then show ?case by (simp add: fresh_items_refl)
next
  case (Cons e es)
  obtain t1 q1 w1 where s: "try_child h maxDepth item (index_label i) (get_member e) (t, q, w) = (t1, q1, w1)"
    by (metis prod_cases3)
  with Cons.prems have "for_elements h maxDepth item (i + 1) es (t1, q1, w1) = (t', q', w')"
    by simp
  then have "fresh_items maxDepth item q1 q'" by (rule Cons.IH)
  with try_child_fresh [OF s] show ?case by (rule fresh_items_trans)
qed

lemma for_keys_fresh:
  "for_keys h maxDepth item ps (t, q, w) = (t', q', w')
     \<Longrightarrow> fresh_items maxDepth item q q'"
proof (induction ps arbitrary: t q w)
  case Nil
  then show ?case by (simp add: fresh_items_refl)
next
  case (Cons kd ps)
  obtain key d where kd: "kd = (key, d)" by (cases kd)
  obtain t1 q1 w1 where s: "try_child h maxDepth item key (resolve_descriptor d) (t, q, w) = (t1, q1, w1)"
    by (metis prod_cases3)
  with Cons.prems kd have "for_keys h maxDepth item ps (t1, q1, w1) = (t', q', w')"
    by simp
  then have "fresh_items maxDepth item q1 q'" by (rule Cons.IH)
  with try_child_fresh [OF s] show ?case by (rule fresh_items_trans)
qed

lemma expand_item_fresh:
  "expand_item h maxDepth item (t, q, w) = (t', q', w')
     \<Longrightarrow> fresh_items maxDepth item q q'"
  by (auto simp: expand_item_def split: jsobj.splits dest: for_elements_fresh for_keys_fresh)

definition queue_weight :: "nat \<Rightarrow> WorkItem list \<Rightarrow> nat multiset" where
  "queue_weight maxDepth queue = mset (map (\<lambda>item. maxDepth - depth item) queue)"

lemma queue_weight_decreases:
  assumes "fresh_items maxDepth item rest queue'"
  shows "(queue_weight maxDepth queue', queue_weight maxDepth (item # rest))
           \<in> mult {(a, b). a < b}"
proof -
  from assms obtain new where q: "queue' = rest @ new"
    and new: "\<forall>n \<in> set new. depth n = depth item + 1 \<and> depth n < maxDepth"
    by (auto simp: fresh_items_def)
  have "(queue_weight maxDepth rest + queue_weight maxDepth new,
         queue_weight maxDepth rest + {#maxDepth - depth item#}) \<in> mult {(a, b). a < b}"
  proof (rule one_step_implies_mult)
    show "{#maxDepth - depth item#} \<noteq> {#}" by simp
    show "\<forall>k \<in># queue_weight maxDepth new. \<exists>j \<in># {#maxDepth - depth item#}. (k, j) \<in> {(a, b). a < b}"
      using new by (auto simp: queue_weight_def)
  qed
  then show ?thesis by (simp add: q queue_weight_def)
qed

text \<open>\<open>while (queue.length > 0) { const item = queue.shift()!; ... }\<close>\<close>

function while_queue :: "heap \<Rightarrow> nat \<Rightarrow> PropertyTreeNode \<Rightarrow> WorkItem list \<Rightarrow> world
    \<Rightarrow> PropertyTreeNode \<times> world" where
  "while_queue h maxDepth rootNode [] w = (rootNode, w)"
| "while_queue h maxDepth rootNode (item # rest) w =
     (case expand_item h maxDepth item (rootNode, rest, w) of
        (rootNode', queue', w') \<Rightarrow> while_queue h maxDepth rootNode' queue' w')"
  by pat_completeness auto
termination
proof (relation "inv_image (mult {(a, b). a < b})
                   (\<lambda>(h, maxDepth, rootNode, queue, w). queue_weight maxDepth queue)")
  show "wf (inv_image (mult {(a, b). a < b})
              (\<lambda>(h, maxDepth, rootNode, queue, w). queue_weight maxDepth queue))"
    by (intro wf_inv_image wf_mult wf_less)
next
  fix h maxDepth rootNode item rest w rootNode' y queue' w'
  assume "(rootNode', y) = expand_item h maxDepth item (rootNode, rest, w)"
    and "(queue', w') = y"
  then have "expand_item h maxDepth item (rootNode, rest, w) = (rootNode', queue', w')"
    by simp
  then have "fresh_items maxDepth item rest queue'" by (rule expand_item_fresh)
  then show "((h, maxDepth, rootNode', queue', w'), (h, maxDepth, rootNode, item # rest, w))
      \<in> inv_image (mult {(a, b). a < b})
           (\<lambda>(h, maxDepth, rootNode, queue, w). queue_weight maxDepth queue)"
    by (simp add: queue_weight_decreases)
qed

declare while_queue.simps [simp del]

text \<open>\<open>maxDepth < 0\<close> and \<open>Number.isInteger(maxDepth)\<close> on a double.\<close>

fun is_negative :: "jsnum \<Rightarrow> bool" where
  "is_negative (Finite r) = (r < 0)"
| "is_negative NaN = False"
| "is_negative PosInfinity = False"
| "is_negative NegInfinity = True"

fun isInteger :: "jsnum \<Rightarrow> bool" where
  "isInteger (Finite r) = (of_int \<lfloor>r\<rfloor> = r)"
| "isInteger NaN = False"
| "isInteger PosInfinity = False"
| "isInteger NegInfinity = False"

text \<open>
  Past the validation \<open>maxDepth\<close> is a non-negative integer, and the loop compares it with
  the integer \<open>currentDepth + 1\<close>; both are natural numbers here. (A double counts exactly
  up to \<open>2^53\<close>; no path of that many distinct objects exists in memory.)
\<close>

fun depth_limit :: "jsnum \<Rightarrow> nat" where
  "depth_limit (Finite r) = nat \<lfloor>r\<rfloor>"
| "depth_limit NaN = 0"
| "depth_limit PosInfinity = 0"
| "depth_limit NegInfinity = 0"

definition buildPropertyTree :: "heap \<Rightarrow> world \<Rightarrow> jsval \<Rightarrow> jsnum \<Rightarrow> jsstring
    \<Rightarrow> (error + PropertyTreeNode) \<times> world" where
  "buildPropertyTree h w val maxDepth rootName =
     (if is_negative maxDepth \<or> \<not> isInteger maxDepth
      then (Inl (InvalidDepthError maxDepth), w)
      else
        let rootType = getPropertyType h val in
        if rootType \<noteq> TObject \<and> rootType \<noteq> TArray \<and> rootType \<noteq> TFunction
        then (Inr (Node rootName rootType (Some val) None), w)
        else if maxDepth = Finite 0 \<or> val = VNull \<or> rootType = TFunction
        then (Inr (Node rootName rootType None None), w)
        else (case val of
            VObject a \<Rightarrow>
              (case while_queue h (depth_limit maxDepth)
                      (Node rootName rootType None (Some []))
                      [\<lparr>obj = a, wname = rootName, depth = 0, parent = [],
                        visited = {a}\<rparr>] w of
                 (rootNode, w') \<Rightarrow> (Inr rootNode, w'))
          | _ \<Rightarrow> (Inr (Node rootName rootType None None), w)))"

section \<open>formatNodeToString and formatPropertyTreeToString\<close>

text \<open>\<open>replace(/\n/g, "\\n")\<close>: every newline becomes a backslash and the letter n.\<close>

fun escape_newlines :: "jsstring \<Rightarrow> jsstring" where
  "escape_newlines [] = []"
| "escape_newlines (c # cs) =
     (if c = newline then [92, 110] @ escape_newlines cs else c # escape_newlines cs)"

text \<open>
  \<open>String(value)\<close>. What the host prints for a number, and for an object or a function
  (which no built tree holds as a value), is the parameter \<open>host\<close>.
\<close>

fun String_of :: "(jsval \<Rightarrow> jsstring) \<Rightarrow> jsval \<Rightarrow> jsstring" where
  "String_of host VUndefined = str ''undefined''"
| "String_of host VNull = str ''null''"
| "String_of host (VBoolean b) = (if b then str ''true'' else str ''false'')"
| "String_of host (VString s) = s"
| "String_of host (VSymbol d) = str ''Symbol('' @ d @ str '')''"
| "String_of host (VBigint i) = (if i < 0 then str ''-'' else []) @ digits10 (nat \<bar>i\<bar>)"
| "String_of host (VNumber n) = host (VNumber n)"
| "String_of host (VFunction f) = host (VFunction f)"
| "String_of host (VObject a) = host (VObject a)"

text \<open>The text appended to the node's line when the node has its \<open>value\<close> attribute.\<close>

definition value_suffix :: "(jsval \<Rightarrow> jsstring) \<Rightarrow> PropertyTreeNode \<Rightarrow> jsstring" where
  "value_suffix host node =
     (case nvalue node of
        None \<Rightarrow> []
      | Some v \<Rightarrow>
          if v = VString CIRCULAR_REFERENCE_MARKER \<or> v = VString ACCESS_ERROR_MARKER
          then str '': '' @ String_of host v
          else if ntype node \<noteq> TObject \<and> ntype node \<noteq> TArray \<and> ntype node \<noteq> TFunction
          then (case v of
              VString s \<Rightarrow>
                str '': '' @ [dquote] @ take 50 (escape_newlines s)
                  @ (if 50 < length s then str ''...'' else []) @ [dquote]
            | _ \<Rightarrow> str '': '' @ String_of host v)
          else [])"

text \<open>\<open>lines.join("\n")\<close>\<close>

fun join_lines :: "jsstring list \<Rightarrow> jsstring" where
  "join_lines [] = []"
| "join_lines [l] = l"
| "join_lines (l # m # ls) = l @ [newline] @ join_lines (m # ls)"

text \<open>The connectors and the indentation units, as UTF-16 code units.\<close>

definition LAST_CONNECTOR :: jsstring where
  "LAST_CONNECTOR = [0x2514, 0x2500, 0x20]"

definition MID_CONNECTOR :: jsstring where
  "MID_CONNECTOR = [0x251C, 0x2500, 0x20]"

definition BAR_INDENT :: jsstring where
  "BAR_INDENT = [0x2502, 0x20, 0x20]"

lemma size_enumerate_member:
  "(i, c) \<in> set (enumerate k xs) \<Longrightarrow> size c < Suc (size_list size xs)"
  by (auto simp: in_set_enumerate_eq less_Suc_eq_le
           intro!: size_list_estimation' [where y = "size (xs ! (i - k))"])

function formatNodeToString :: "(jsval \<Rightarrow> jsstring) \<Rightarrow> PropertyTreeNode \<Rightarrow> jsstring \<Rightarrow> bool
    \<Rightarrow> jsstring" where
  "formatNodeToString host (Node n ty v cs) indent isLast =
     (let prefix = indent @ (if isLast then LAST_CONNECTOR else MID_CONNECTOR);
          nodeLine = prefix @ n @ str '' ('' @ type_name ty @ str '')''
                       @ value_suffix host (Node n ty v cs);
          lines = [nodeLine] @
            (case cs of
               None \<Rightarrow> []
             | Some xs \<Rightarrow>
                 if length xs > 0
                 then map (\<lambda>(index, child).
                        formatNodeToString host child
                          (indent @ (if isLast then str ''   '' else BAR_INDENT))
                          (index = length xs - 1))
                      (enumerate 0 xs)
                 else [])
      in join_lines lines)"
  by pat_completeness auto
termination
  by (relation "measure (\<lambda>(host, node, indent, isLast). size node)")
     (auto dest: size_enumerate_member)

definition formatPropertyTreeToString ::
    "(jsval \<Rightarrow> jsstring) \<Rightarrow> PropertyTreeNode \<Rightarrow> jsstring" where
  "formatPropertyTreeToString host rootNode = formatNodeToString host rootNode [] True"

section \<open>logPropertyTree\<close>

text \<open>
  The text that \<open>console.log\<close> receives, or the error that \<open>buildPropertyTree\<close> raised.
\<close>

definition logPropertyTree :: "(jsval \<Rightarrow> jsstring) \<Rightarrow> heap \<Rightarrow> world \<Rightarrow> jsval \<Rightarrow> jsnum \<Rightarrow> jsstring
    \<Rightarrow> (error + jsstring) \<times> world" where
  "logPropertyTree host h w val maxDepth rootName =
     (case buildPropertyTree h w val maxDepth rootName of
        (Inl e, w') \<Rightarrow> (Inl e, w')
      | (Inr tree, w') \<Rightarrow> (Inr (formatPropertyTreeToString host tree), w'))"

section \<open>Objects in general: proxies, and objects that change while they are read\<close>

text \<open>
  The loop touches an object only through seven operations of the language:
  \<open>Array.isArray(o)\<close>, \<open>typeof o\<close>, the test \<open>i < o.length\<close>, \<open>o[i]\<close>, \<open>Object.keys(o)\<close>,
  \<open>Object.getOwnPropertyDescriptor(o, key)\<close> and \<open>o[key]\<close>. For an ordinary object that
  nothing changes during the traversal they are the lookups of the sections above. For a
  proxy each of them except \<open>typeof\<close> runs a trap or fails because the proxy is revoked, and
  for any object an accessor that ran earlier may have added or deleted properties. So in
  general each operation depends on the state of the program, may change it, and may
  raise. In this section the \<open>world\<close> stands for that whole state, the object graph
  included, and a \<open>host_object\<close> gives the operations on one object as functions of the
  world; \<open>typeof\<close> stays with the value (\<open>VObject\<close> or \<open>VFunction\<close>).

  What the code asks about a descriptor: whether it is undefined, whether its \<open>get\<close> is a
  function, whether it has an own \<open>value\<close>, or none of these.
\<close>

datatype descriptor = NoDescriptor | GetterDescriptor | ValueDescriptor jsval | OtherDescriptor

text \<open>
  \<^item> \<open>revoked w\<close>: the object is a proxy that is revoked in state \<open>w\<close>;
    \<open>Array.isArray\<close> raises \<open>TypeError\<close> on it;
  \<^item> \<open>array\<close>: what \<open>Array.isArray\<close> answers otherwise (for a proxy, whether its target is
    an array), fixed when the object is created;
  \<^item> \<open>less_length i\<close>: the test \<open>i < o.length\<close>, which reads the property \<open>length\<close>: the
    error it raises, or its truth value;
  \<^item> \<open>get_index i\<close>: the read \<open>o[i]\<close>;
  \<^item> \<open>own_keys\<close>: \<open>Object.keys(o)\<close>, the error it raises or the keys;
  \<^item> \<open>own_descriptor key\<close>: \<open>Object.getOwnPropertyDescriptor(o, key)\<close>, \<open>None\<close> when it
    raises;
  \<^item> \<open>get_key key\<close>: the read \<open>o[key]\<close>.
\<close>

record host_object =
  revoked :: "world \<Rightarrow> bool"
  array :: bool
  less_length :: "nat \<Rightarrow> world \<Rightarrow> (exn + bool) \<times> world"
  get_index :: "nat \<Rightarrow> world \<Rightarrow> outcome \<times> world"
  own_keys :: "world \<Rightarrow> (exn + jsstring list) \<times> world"
  own_descriptor :: "jsstring \<Rightarrow> world \<Rightarrow> descriptor option \<times> world"
  get_key :: "jsstring \<Rightarrow> world \<Rightarrow> outcome \<times> world"

type_synonym host_heap = "addr \<Rightarrow> host_object"

text \<open>
  \<open>getPropertyType\<close> once more, with an \<open>Array.isArray\<close> that can raise: \<open>None\<close> is the
  \<open>TypeError\<close>. A function is never an array, but it can be a revoked proxy.
\<close>

definition isArray_full :: "host_heap \<Rightarrow> world \<Rightarrow> jsval \<Rightarrow> bool option" where
  "isArray_full h w v = (case v of
       VObject a \<Rightarrow> if revoked (h a) w then None else Some (array (h a))
     | VFunction f \<Rightarrow> if revoked (h f) w then None else Some False
     | _ \<Rightarrow> Some False)"

definition getPropertyType_full :: "host_heap \<Rightarrow> world \<Rightarrow> jsval \<Rightarrow> PropertyType option" where
  "getPropertyType_full h w v =
     (if v = VNull then Some TNull
      else case isArray_full h w v of
          None \<Rightarrow> None
        | Some True \<Rightarrow> Some TArray
        | Some False \<Rightarrow>
            let t = typeof v in
            if t = ''string'' then Some TString
            else if t = ''number'' then Some TNumber
            else if t = ''boolean'' then Some TBoolean
            else if t = ''function'' then Some TFunction
            else if t = ''symbol'' then Some TSymbol
            else if t = ''bigint'' then Some TBigint
            else if t = ''undefined'' then Some TUndefined
            else if t = ''object'' then Some TObject
            else Some TError)"

text \<open>
  \<open>processChild\<close>: \<open>getPropertyType(value)\<close> is its second statement, before the child is
  pushed, and nothing after it can raise. So \<open>processChild\<close> either raises with the tree
  and the queue untouched (\<open>None\<close>) or does what it does for an ordinary value.
\<close>

definition processChild_full :: "host_heap \<Rightarrow> world \<Rightarrow> noderef \<Rightarrow> jsstring \<Rightarrow> jsval \<Rightarrow> nat \<Rightarrow> nat
    \<Rightarrow> addr set \<Rightarrow> PropertyTreeNode \<times> WorkItem list \<Rightarrow> (PropertyTreeNode \<times> WorkItem list) option"
  where
  "processChild_full h w parentNode keyOrIndex val currentDepth maxDepth visitedSet s =
     (case getPropertyType_full h w val of
        None \<Rightarrow> None
      | Some childType \<Rightarrow>
         (case s of (rootNode, queue) \<Rightarrow>
          let childName = keyOrIndex;
              childRef = next_child rootNode parentNode;
              childValue = (if childType \<noteq> TObject \<and> childType \<noteq> TArray \<and> childType \<noteq> TFunction
                            then Some val else None)
          in if currentDepth + 1 < maxDepth \<and> (childType = TObject \<or> childType = TArray)
                \<and> val \<noteq> VNull
             then (case val of
                 VObject a \<Rightarrow>
                   if a \<in> visitedSet
                   then Some (update_at parentNode
                           (push (Node childName childType
                                    (Some (VString CIRCULAR_REFERENCE_MARKER)) None)) rootNode,
                         queue)
                   else Some (update_at parentNode
                           (push (Node childName childType childValue (Some []))) rootNode,
                         queue @ [\<lparr>obj = a, wname = childName, depth = currentDepth + 1,
                                   parent = childRef, visited = insert a visitedSet\<rparr>])
               | _ \<Rightarrow> Some (update_at parentNode
                         (push (Node childName childType childValue None)) rootNode, queue))
             else Some (update_at parentNode
                     (push (Node childName childType childValue None)) rootNode, queue)))"

text \<open>
  The body of the \<open>try\<close> block of the object loop up to the call of \<open>processChild\<close>:
  the descriptor is looked up, which may raise; without a descriptor nothing is done for
  the key (\<open>None\<close>: no read, no node); a getter is invoked through \<open>currentRecord[key]\<close>; a
  data descriptor gives its value; any other descriptor gives \<open>undefined\<close>. In the array
  loop the member is read with \<open>currentObj[i]\<close>.
\<close>

definition resolve_key :: "host_object \<Rightarrow> jsstring \<Rightarrow> world \<Rightarrow> outcome option \<times> world" where
  "resolve_key ob key w =
     (case own_descriptor ob key w of
        (None, w') \<Rightarrow> (Some Throws, w')
      | (Some NoDescriptor, w') \<Rightarrow> (None, w')
      | (Some GetterDescriptor, w') \<Rightarrow> (case get_key ob key w' of (out, w'') \<Rightarrow> (Some out, w''))
      | (Some (ValueDescriptor v), w') \<Rightarrow> (Some (Returns v), w')
      | (Some OtherDescriptor, w') \<Rightarrow> (Some (Returns VUndefined), w'))"

definition resolve_index :: "host_object \<Rightarrow> nat \<Rightarrow> world \<Rightarrow> outcome option \<times> world" where
  "resolve_index ob i w = (case get_index ob i w of (out, w') \<Rightarrow> (Some out, w'))"

text \<open>
  One round of either loop, \<open>try { read; processChild } catch { push the error node }\<close>:
  the error node is pushed when the read raised and when \<open>processChild\<close> raised.
\<close>

definition try_child_full :: "host_heap \<Rightarrow> nat \<Rightarrow> WorkItem \<Rightarrow> jsstring
    \<Rightarrow> (world \<Rightarrow> outcome option \<times> world)
    \<Rightarrow> PropertyTreeNode \<times> WorkItem list \<times> world \<Rightarrow> PropertyTreeNode \<times> WorkItem list \<times> world"
  where
  "try_child_full h maxDepth item label rd s =
     (case s of (rootNode, queue, w) \<Rightarrow>
       (case rd w of
          (None, w') \<Rightarrow> (rootNode, queue, w')
        | (Some (Returns v), w') \<Rightarrow>
            (case processChild_full h w' (parent item) label v (depth item) maxDepth
                    (visited item) (rootNode, queue) of
               Some (rootNode', queue') \<Rightarrow> (rootNode', queue', w')
             | None \<Rightarrow>
                 (update_at (parent item)
                    (push (Node label TError (Some (VString ACCESS_ERROR_MARKER)) None)) rootNode,
                  queue, w'))
        | (Some Throws, w') \<Rightarrow>
            (update_at (parent item)
               (push (Node label TError (Some (VString ACCESS_ERROR_MARKER)) None)) rootNode,
             queue, w')))"

text \<open>
  \<open>for (let i = 0; i < currentObj.length; i++)\<close>: the length is read before every round
  and outside the \<open>try\<close> block, so the test may raise, which ends \<open>buildPropertyTree\<close>; and
  the loop need not end (the test of a proxy, or of an array that grows under its
  accessors, can succeed forever). \<open>None\<close> is a run that does not return.
\<close>

partial_function (option) for_elements_full :: "host_heap \<Rightarrow> nat \<Rightarrow> WorkItem \<Rightarrow> nat
    \<Rightarrow> PropertyTreeNode \<times> WorkItem list \<times> world
    \<Rightarrow> (exn \<times> world + PropertyTreeNode \<times> WorkItem list \<times> world) option" where
  "for_elements_full h maxDepth item i s =
     (case s of (rootNode, queue, w) \<Rightarrow>
       (case less_length (h (obj item)) i w of
          (Inl e, w') \<Rightarrow> Some (Inl (e, w'))
        | (Inr below, w') \<Rightarrow>
            if below
            then for_elements_full h maxDepth item (i + 1)
                   (try_child_full h maxDepth item (index_label i)
                      (resolve_index (h (obj item)) i) (rootNode, queue, w'))
            else Some (Inr (rootNode, queue, w'))))"

text \<open>\<open>for (const key of keys)\<close> over the keys that \<open>Object.keys\<close> has returned.\<close>

fun for_keys_full :: "host_heap \<Rightarrow> nat \<Rightarrow> WorkItem \<Rightarrow> jsstring list
    \<Rightarrow> PropertyTreeNode \<times> WorkItem list \<times> world \<Rightarrow> PropertyTreeNode \<times> WorkItem list \<times> world"
  where
  "for_keys_full h maxDepth item [] s = s"
| "for_keys_full h maxDepth item (key # keys) s =
     for_keys_full h maxDepth item keys
       (try_child_full h maxDepth item key (resolve_key (h (obj item)) key) s)"

text \<open>
  The body of the \<open>while\<close> loop. \<open>Array.isArray(currentObj)\<close> and \<open>Object.keys\<close> run outside
  the \<open>try\<close> blocks. The queue holds containers only, for which \<open>typeof\<close> is \<open>"object"\<close>.
\<close>

definition expand_item_full :: "host_heap \<Rightarrow> nat \<Rightarrow> WorkItem
    \<Rightarrow> PropertyTreeNode \<times> WorkItem list \<times> world
    \<Rightarrow> (exn \<times> world + PropertyTreeNode \<times> WorkItem list \<times> world) option" where
  "expand_item_full h maxDepth item s =
     (case s of (rootNode, queue, w) \<Rightarrow>
       (case isArray_full h w (VObject (obj item)) of
          None \<Rightarrow> Some (Inl (TypeError, w))
        | Some is_array \<Rightarrow>
            if is_array then for_elements_full h maxDepth item 0 s
            else (case own_keys (h (obj item)) w of
               (Inl e, w') \<Rightarrow> Some (Inl (e, w'))
             | (Inr keys, w') \<Rightarrow>
                 Some (Inr (for_keys_full h maxDepth item keys (rootNode, queue, w'))))))"

partial_function (option) while_queue_full :: "host_heap \<Rightarrow> nat \<Rightarrow> PropertyTreeNode
    \<Rightarrow> WorkItem list \<Rightarrow> world \<Rightarrow> (exn \<times> world + PropertyTreeNode \<times> world) option" where
  "while_queue_full h maxDepth rootNode queue w =
     (case queue of
        [] \<Rightarrow> Some (Inr (rootNode, w))
      | item # rest \<Rightarrow>
          (case expand_item_full h maxDepth item (rootNode, rest, w) of
             None \<Rightarrow> None
           | Some (Inl ew) \<Rightarrow> Some (Inl ew)
           | Some (Inr (rootNode', queue', w')) \<Rightarrow>
               while_queue_full h maxDepth rootNode' queue' w'))"

text \<open>
  \<open>buildPropertyTree\<close>: the validation comes first; \<open>getPropertyType(obj)\<close> for the root is
  inside no \<open>try\<close> block.
\<close>

definition buildPropertyTree_full :: "host_heap \<Rightarrow> world \<Rightarrow> jsval \<Rightarrow> jsnum \<Rightarrow> jsstring
    \<Rightarrow> ((error + PropertyTreeNode) \<times> world) option" where
  "buildPropertyTree_full h w val maxDepth rootName =
     (if is_negative maxDepth \<or> \<not> isInteger maxDepth
      then Some (Inl (InvalidDepthError maxDepth), w)
      else
        (case getPropertyType_full h w val of
           None \<Rightarrow> Some (Inl (Uncaught TypeError), w)
         | Some rootType \<Rightarrow>
            if rootType \<noteq> TObject \<and> rootType \<noteq> TArray \<and> rootType \<noteq> TFunction
            then Some (Inr (Node rootName rootType (Some val) None), w)
            else if maxDepth = Finite 0 \<or> val = VNull \<or> rootType = TFunction
            then Some (Inr (Node rootName rootType None None), w)
            else (case val of
                VObject a \<Rightarrow>
                  (case while_queue_full h (depth_limit maxDepth)
                          (Node rootName rootType None (Some []))
                          [\<lparr>obj = a, wname = rootName, depth = 0, parent = [],
                            visited = {a}\<rparr>] w of
                     None \<Rightarrow> None
                   | Some (Inl (e, w')) \<Rightarrow> Some (Inl (Uncaught e), w')
                   | Some (Inr (rootNode, w')) \<Rightarrow> Some (Inr rootNode, w'))
              | _ \<Rightarrow> Some (Inr (Node rootName rootType None None), w))))"

section \<open>Ordinary objects as host objects\<close>

text \<open>
  An object of the first model, seen through the seven operations: nothing raises except
  an accessor, and nothing but an accessor depends on the world or changes it. The
  operations that the loop never applies to an object of that kind (the keys of an array,
  the length and the indices of a plain object) are filled in with the answers of an
  object that has no such property; they play no role. \<open>keys_distinct\<close>: every object has
  each of its keys once, as all JavaScript objects have; the first model lists the
  properties and never looks one up by its key.
\<close>

definition descriptor_of :: "property \<Rightarrow> descriptor" where
  "descriptor_of p = (case p of
       Data v \<Rightarrow> ValueDescriptor v
     | Accessor g \<Rightarrow> GetterDescriptor
     | SetterOnly \<Rightarrow> OtherDescriptor)"

definition host_of :: "jsobj \<Rightarrow> host_object" where
  "host_of ob = (case ob of
       JArray es \<Rightarrow>
         \<lparr>revoked = (\<lambda>w. False), array = True,
          less_length = (\<lambda>i w. (Inr (i < length es), w)),
          get_index = (\<lambda>i w. if i < length es then get_member (es ! i) w
                               else (Returns VUndefined, w)),
          own_keys = (\<lambda>w. (Inr [], w)),
          own_descriptor = (\<lambda>key w. (Some NoDescriptor, w)),
          get_key = (\<lambda>key w. (Returns VUndefined, w))\<rparr>
     | JObject ps \<Rightarrow>
         \<lparr>revoked = (\<lambda>w. False), array = False,
          less_length = (\<lambda>i w. (Inr False, w)),
          get_index = (\<lambda>i w. (Returns VUndefined, w)),
          own_keys = (\<lambda>w. (Inr (map fst ps), w)),
          own_descriptor = (\<lambda>key w.
             (Some (case map_of ps key of
                      None \<Rightarrow> NoDescriptor
                    | Some p \<Rightarrow> descriptor_of p), w)),
          get_key = (\<lambda>key w. case map_of ps key of
                                None \<Rightarrow> (Returns VUndefined, w)
                              | Some p \<Rightarrow> get_member p w)\<rparr>)"

definition ordinary :: "heap \<Rightarrow> host_heap" where
  "ordinary h = (\<lambda>a. host_of (h a))"

definition keys_distinct :: "heap \<Rightarrow> bool" where
  "keys_distinct h = (\<forall>a ps. h a = JObject ps \<longrightarrow> distinct (map fst ps))"

section \<open>What the finished tree must look like\<close>

text \<open>
  The members of a container in the order the loops visit them, each with its label: the
  bracketed index of an array element, the key of an object property.
\<close>

definition members :: "heap \<Rightarrow> addr \<Rightarrow> (jsstring \<times> property) list" where
  "members h a =
     (case h a of
        JArray es \<Rightarrow> zip (map index_label [0..<length es]) es
      | JObject ps \<Rightarrow> ps)"

text \<open>
  What reading the members in order gives, starting in world \<open>w\<close>, and the world after
  the last read.
\<close>

fun outcomes :: "(jsstring \<times> property) list \<Rightarrow> world \<Rightarrow> (jsstring \<times> outcome) list" where
  "outcomes [] w = []"
| "outcomes ((label, p) # ms) w =
     (label, fst (get_member p w)) # outcomes ms (snd (get_member p w))"

fun world_after :: "(jsstring \<times> property) list \<Rightarrow> world \<Rightarrow> world" where
  "world_after [] w = w"
| "world_after ((label, p) # ms) w = world_after ms (snd (get_member p w))"

text \<open>
  An outcome the read of a property can have: a data property gives its value, a
  setter-only property \<open>undefined\<close>, an accessor whatever its getter does in some world.
\<close>

fun possible :: "property \<Rightarrow> outcome \<Rightarrow> bool" where
  "possible (Data v) out = (out = Returns v)"
| "possible SetterOnly out = (out = Returns VUndefined)"
| "possible (Accessor g) out = (\<exists>w. fst (g w) = out)"

text \<open>
  \<open>member_node h maxDepth V d m nd\<close>: \<open>nd\<close> is a finished node for the member \<open>m\<close> of a
  container whose own node is at depth \<open>d\<close>, where \<open>V\<close> holds the references of the
  containers on the path from the root down to and including that container. A member
  that is a container is marked circular exactly when it is within the depth bound and
  its reference is in \<open>V\<close>; otherwise, within the bound, it is expanded, and its members
  are judged against \<open>V\<close> extended by its own reference only. Nothing else of the
  traversal enters: a container met again on another branch is expanded again.
\<close>

inductive member_node :: "heap \<Rightarrow> nat \<Rightarrow> addr set \<Rightarrow> nat \<Rightarrow> jsstring \<times> property
    \<Rightarrow> PropertyTreeNode \<Rightarrow> bool"
  for h :: heap and maxDepth :: nat where
  raised:
    "possible p Throws \<Longrightarrow>
     member_node h maxDepth V d (key, p)
       (Node key TError (Some (VString ACCESS_ERROR_MARKER)) None)"
| terminal:
    "possible p (Returns v) \<Longrightarrow> getPropertyType h v \<notin> {TObject, TArray, TFunction} \<Longrightarrow>
     member_node h maxDepth V d (key, p) (Node key (getPropertyType h v) (Some v) None)"
| callable:
    "possible p (Returns (VFunction f)) \<Longrightarrow>
     member_node h maxDepth V d (key, p) (Node key TFunction None None)"
| too_deep:
    "possible p (Returns (VObject a)) \<Longrightarrow> \<not> d + 1 < maxDepth \<Longrightarrow>
     member_node h maxDepth V d (key, p)
       (Node key (getPropertyType h (VObject a)) None None)"
| circular:
    "possible p (Returns (VObject a)) \<Longrightarrow> d + 1 < maxDepth \<Longrightarrow> a \<in> V \<Longrightarrow>
     member_node h maxDepth V d (key, p)
       (Node key (getPropertyType h (VObject a))
          (Some (VString CIRCULAR_REFERENCE_MARKER)) None)"
| expanded:
    "possible p (Returns (VObject a)) \<Longrightarrow> d + 1 < maxDepth \<Longrightarrow> a \<notin> V \<Longrightarrow>
     length cs = length (members h a) \<Longrightarrow>
     \<forall>j<length cs. member_node h maxDepth (insert a V) (d + 1) (members h a ! j) (cs ! j) \<Longrightarrow>
     member_node h maxDepth V d (key, p)
       (Node key (getPropertyType h (VObject a)) None (Some cs))"

definition expansion :: "heap \<Rightarrow> nat \<Rightarrow> addr set \<Rightarrow> nat \<Rightarrow> addr \<Rightarrow> PropertyTreeNode list \<Rightarrow> bool"
  where
  "expansion h maxDepth V d a cs =
     (length cs = length (members h a)
      \<and> (\<forall>j<length cs. member_node h maxDepth V d (members h a ! j) (cs ! j)))"

section \<open>What the rendered text must look like, and pure object graphs\<close>

text \<open>
  The rendering of a text value as the specification words it: escape the newlines, keep
  the first 50 characters, add three dots exactly when that removed characters, and wrap
  the result in double quotes (after the colon and the space that open every value).
\<close>

definition spec_text_suffix :: "jsstring \<Rightarrow> jsstring" where
  "spec_text_suffix s =
     (let escaped = escape_newlines s; shown = take 50 escaped
      in str '': '' @ [dquote] @ shown @ (if shown \<noteq> escaped then str ''...'' else [])
           @ [dquote])"

text \<open>A text that does not end in a newline.\<close>

definition ends_clean :: "jsstring \<Rightarrow> bool" where
  "ends_clean s = (s = [] \<or> last s \<noteq> newline)"

text \<open>
  A property is pure when reading it gives the same outcome in every world and leaves the
  world as it is; data properties and setter-only properties are. An object graph is pure
  when all its properties are.
\<close>

definition pure_property :: "property \<Rightarrow> bool" where
  "pure_property p = (\<forall>w. get_member p w = (fst (get_member p 0), w))"

definition pure_heap :: "heap \<Rightarrow> bool" where
  "pure_heap h = (\<forall>a. \<forall>m \<in> set (members h a). pure_property (snd m))"


section \<open>Notions used in the proofs\<close>

text \<open>Giving a node its finished children.\<close>

definition set_children :: "PropertyTreeNode list \<Rightarrow> PropertyTreeNode \<Rightarrow> PropertyTreeNode" where
  "set_children cs nd = Node (name nd) (ntype nd) (nvalue nd) (Some cs)"

text \<open>
  \<open>child_node\<close>: the node \<open>try_child\<close> pushes for a member read with outcome
  \<open>out\<close> by an item at depth \<open>d\<close> with visited set \<open>V\<close>; \<open>grows\<close>: the container it
  queues for expansion, if any; \<open>new_items\<close>: the items one round appends to the queue.
\<close>

definition grows :: "nat \<Rightarrow> nat \<Rightarrow> addr set \<Rightarrow> outcome \<Rightarrow> addr option" where
  "grows maxDepth d V out =
     (case out of
        Returns (VObject a) \<Rightarrow> if d + 1 < maxDepth \<and> a \<notin> V then Some a else None
      | _ \<Rightarrow> None)"

definition child_node :: "heap \<Rightarrow> nat \<Rightarrow> nat \<Rightarrow> addr set \<Rightarrow> jsstring \<Rightarrow> outcome
    \<Rightarrow> PropertyTreeNode" where
  "child_node h maxDepth d V label out =
     (case out of
        Throws \<Rightarrow> Node label TError (Some (VString ACCESS_ERROR_MARKER)) None
      | Returns v \<Rightarrow>
          (case v of
             VObject a \<Rightarrow>
               if d + 1 < maxDepth
               then if a \<in> V
                    then Node label (getPropertyType h v)
                           (Some (VString CIRCULAR_REFERENCE_MARKER)) None
                    else Node label (getPropertyType h v) None (Some [])
               else Node label (getPropertyType h v) None None
           | VFunction f \<Rightarrow> Node label TFunction None None
           | _ \<Rightarrow> Node label (getPropertyType h v) (Some v) None))"

fun new_items :: "nat \<Rightarrow> WorkItem \<Rightarrow> nat \<Rightarrow> (jsstring \<times> outcome) list \<Rightarrow> WorkItem list" where
  "new_items maxDepth item k [] = []"
| "new_items maxDepth item k ((label, out) # los) =
     (case grows maxDepth (depth item) (visited item) out of
        None \<Rightarrow> []
      | Some a \<Rightarrow> [\<lparr>obj = a, wname = label, depth = depth item + 1,
                     parent = parent item @ [k], visited = insert a (visited item)\<rparr>])
     @ new_items maxDepth item (Suc k) los"

text \<open>
  The proof of the loop: the queue holds the nodes that still wait for their children
  (\<open>pending\<close>); the loop gives the same tree as filling in, for every item of the queue,
  some finished children (\<open>fill_one\<close>). \<open>graft\<close> puts the finished children of the new
  items into the nodes one round has pushed.
\<close>

fun graft :: "heap \<Rightarrow> nat \<Rightarrow> nat \<Rightarrow> addr set \<Rightarrow> (jsstring \<times> outcome) list
    \<Rightarrow> PropertyTreeNode list list \<Rightarrow> PropertyTreeNode list" where
  "graft h maxDepth d V [] css = []"
| "graft h maxDepth d V ((label, out) # los) css =
     (case grows maxDepth d V out of
        None \<Rightarrow> child_node h maxDepth d V label out # graft h maxDepth d V los css
      | Some a \<Rightarrow>
          set_children (hd css) (child_node h maxDepth d V label out)
            # graft h maxDepth d V los (tl css))"

definition fill_one :: "WorkItem \<times> PropertyTreeNode list \<Rightarrow> PropertyTreeNode \<Rightarrow> PropertyTreeNode"
  where
  "fill_one = (\<lambda>(item, cs). update_at (parent item) (set_children cs))"

definition pending :: "PropertyTreeNode \<Rightarrow> WorkItem list \<Rightarrow> bool" where
  "pending t queue =
     (distinct (map parent queue)
      \<and> (\<forall>item \<in> set queue. \<exists>n ty v. node_at t (parent item) = Some (Node n ty v (Some []))))"

text \<open>
  The finished children of a queued item; a node as the claims describe it.
\<close>

definition item_expansion :: "heap \<Rightarrow> nat \<Rightarrow> WorkItem \<Rightarrow> PropertyTreeNode list \<Rightarrow> bool" where
  "item_expansion h maxDepth item cs =
     expansion h maxDepth (visited item) (depth item) (obj item) cs"

definition node_form :: "PropertyTreeNode \<Rightarrow> bool" where
  "node_form x =
     ((nvalue x = None \<or> children x = None)
      \<and> ((ntype x = TObject \<or> ntype x = TArray) \<and> nvalue x \<noteq> None \<longrightarrow>
           nvalue x = Some (VString CIRCULAR_REFERENCE_MARKER) \<and> children x = None))"

section \<open>Example object graphs\<close>

text \<open>
  An object that holds itself; an object whose two properties hold one shared object that
  points back to both; an object with a getter that raises next to a text, another object
  and itself; an object with a setter-only property; an object whose getter counts its
  calls.
\<close>

definition self_ref :: heap where
  "self_ref = (\<lambda>a. JObject [])
     (0 := JObject [(str ''name'', Data (VString (str ''Circular''))),
                    (str ''self'', Data (VObject 0))])"

definition diamond :: heap where
  "diamond = (\<lambda>a. JObject [])
     (0 := JObject [(str ''x'', Data (VObject 1)), (str ''y'', Data (VObject 1))],
      1 := JObject [(str ''up'', Data (VObject 0)), (str ''me'', Data (VObject 1))])"


definition setter_only :: heap where
  "setter_only = (\<lambda>a. JObject []) (0 := JObject [(str ''x'', SetterOnly)])"

definition ticking :: heap where
  "ticking = (\<lambda>a. JObject [])
     (0 := JObject [(str ''flag'', Accessor (\<lambda>w. (Returns (VBoolean (even w)), Suc w)))])"

text \<open>
  Objects that are not ordinary: a revoked proxy, on which every operation raises
  \<open>TypeError\<close>; an object with a getter that raises and a property that holds a proxy
  whose \<open>ownKeys\<close> trap raises; an object whose first getter deletes the second property
  and then raises (the state \<open>0\<close> is the graph before the deletion, \<open>1\<close> the graph after).
\<close>

definition revoked_proxy :: host_object where
  "revoked_proxy =
     \<lparr>revoked = (\<lambda>w. True), array = False,
      less_length = (\<lambda>i w. (Inl TypeError, w)),
      get_index = (\<lambda>i w. (Throws, w)),
      own_keys = (\<lambda>w. (Inl TypeError, w)),
      own_descriptor = (\<lambda>key w. (None, w)),
      get_key = (\<lambda>key w. (Throws, w))\<rparr>"

definition revoked_root :: host_heap where
  "revoked_root = (ordinary (\<lambda>a. JObject [])) (0 := revoked_proxy)"



section \<open>Classification\<close>

lemma getPropertyType_simps [simp]:
  "getPropertyType h VUndefined = TUndefined"
  "getPropertyType h VNull = TNull"
  "getPropertyType h (VBoolean b) = TBoolean"
  "getPropertyType h (VNumber n) = TNumber"
  "getPropertyType h (VString s) = TString"
  "getPropertyType h (VSymbol d) = TSymbol"
  "getPropertyType h (VBigint i) = TBigint"
  "getPropertyType h (VFunction f) = TFunction"
  by (simp_all add: getPropertyType_def isArray_def)

lemma getPropertyType_VObject:
  "getPropertyType h (VObject a) = (case h a of JArray es \<Rightarrow> TArray | JObject ps \<Rightarrow> TObject)"
  by (simp add: getPropertyType_def isArray_def split: jsobj.splits)

lemma getPropertyType_container [simp]:
  "getPropertyType h (VObject a) \<noteq> TFunction"
  "getPropertyType h (VObject a) = TObject \<or> getPropertyType h (VObject a) = TArray"
  by (simp_all add: getPropertyType_VObject split: jsobj.splits)

text \<open>The \<open>default\<close> branch of \<open>getPropertyType\<close> is never taken.\<close>

lemma getPropertyType_not_error: "getPropertyType h v \<noteq> TError"
  by (cases v) (simp_all add: getPropertyType_VObject split: jsobj.splits)

lemma isInteger_iff: "isInteger (Finite r) \<longleftrightarrow> r \<in> \<int>"
  by (auto simp: Ints_def)

section \<open>Paths into the tree\<close>

lemma update_at_compose: "update_at p f (update_at p g t) = update_at p (f \<circ> g) t"
proof (induction p arbitrary: t)
  case Nil
  show ?case by simp
next
  case (Cons i p)
  show ?case by (cases t) (auto simp: Cons.IH split: option.splits)
qed

lemma update_at_append: "update_at (p @ q) f t = update_at p (update_at q f) t"
proof (induction p arbitrary: t)
  case Nil
  show ?case by simp
next
  case (Cons i p)
  show ?case by (cases t) (auto simp: Cons.IH split: option.splits)
qed

lemma update_at_swap:
  "p \<parallel> q \<Longrightarrow> update_at p f (update_at q g t) = update_at q g (update_at p f t)"
proof (induction p arbitrary: q t)
  case Nil
  then show ?case by simp
next
  case (Cons i p)
  then obtain j q' where q: "q = j # q'" by (cases q) auto
  obtain n ty v cs where t: "t = Node n ty v cs" by (cases t)
  show ?case
  proof (cases "i = j")
    case True
    with Cons.prems q have "p \<parallel> q'" by (simp add: parallel_def)
    then show ?thesis
      by (auto simp: q t True Cons.IH split: option.splits)
  next
    case False
    then show ?thesis
      by (auto simp: q t list_update_swap split: option.splits)
  qed
qed

lemma node_at_update_at_parallel:
  "p \<parallel> q \<Longrightarrow> node_at (update_at p f t) q = node_at t q"
proof (induction p arbitrary: q t)
  case Nil
  then show ?case by simp
next
  case (Cons i p)
  then obtain j q' where q: "q = j # q'" by (cases q) auto
  obtain n ty v cs where t: "t = Node n ty v cs" by (cases t)
  show ?case
  proof (cases "i = j")
    case True
    with Cons.prems q have "p \<parallel> q'" by (simp add: parallel_def)
    then show ?thesis
      by (auto simp: q t True Cons.IH split: option.splits)
  next
    case False
    then show ?thesis
      by (auto simp: q t split: option.splits)
  qed
qed

lemma node_at_update_at_below:
  "node_at t p = Some nd \<Longrightarrow> node_at (update_at p f t) (p @ q) = node_at (f nd) q"
proof (induction p arbitrary: t)
  case Nil
  then show ?case by simp
next
  case (Cons i p)
  then show ?case by (cases t) (auto split: option.splits if_splits)
qed

lemma node_at_append:
  "node_at t (p @ q) = (case node_at t p of None \<Rightarrow> None | Some nd \<Rightarrow> node_at nd q)"
proof (induction p arbitrary: t)
  case Nil
  then show ?case by simp
next
  case (Cons i p)
  then show ?case by (cases t) (auto split: option.splits if_splits)
qed

lemma pending_parallel:
  assumes "node_at t p = Some (Node n ty v (Some []))"
    and "node_at t q = Some (Node n' ty' v' (Some []))" and "p \<noteq> q"
  shows "p \<parallel> q"
proof -
  have np: "\<not> prefix p q"
  proof
    assume "prefix p q"
    then obtain r where "q = p @ r" by (auto simp: prefix_def)
    with assms(3) have "r \<noteq> []" by auto
    with assms(1,2) \<open>q = p @ r\<close> show False
      by (cases r) (auto simp: node_at_append)
  qed
  have nq: "\<not> prefix q p"
  proof
    assume "prefix q p"
    then obtain r where "p = q @ r" by (auto simp: prefix_def)
    with assms(3) have "r \<noteq> []" by auto
    with assms(1,2) \<open>p = q @ r\<close> show False
      by (cases r) (auto simp: node_at_append)
  qed
  from np nq show ?thesis by (simp add: parallel_def)
qed

lemma node_at_update_at_self:
  "node_at t p = Some nd \<Longrightarrow> node_at (update_at p f t) p = Some (f nd)"
  using node_at_update_at_below [of t p nd f "[]"] by simp

lemma update_at_same:
  "node_at t p = Some nd \<Longrightarrow> f nd = nd \<Longrightarrow> update_at p f t = t"
proof (induction p arbitrary: t)
  case Nil
  then show ?case by simp
next
  case (Cons i p)
  then show ?case by (cases t) (auto split: option.splits if_splits)
qed

lemma node_at_leaf:
  "node_at (Node n ty v None) p = Some x \<Longrightarrow> x = Node n ty v None"
  by (cases p) auto

lemma node_at_leaf_path:
  "node_at (Node n ty v None) p = Some x \<Longrightarrow> p = []"
  by (cases p) auto

section \<open>One round of the loop\<close>

lemma resolve_descriptor_eq: "resolve_descriptor d = get_member d"
  by (rule ext, cases d) simp_all

lemma for_keys_outcome:
  "for_keys h maxDepth item ps s =
     fold (\<lambda>(label, p). try_child h maxDepth item label (get_member p)) ps s"
proof (induction ps arbitrary: s)
  case Nil
  show ?case by simp
next
  case (Cons kd ps)
  obtain key d where "kd = (key, d)" by (cases kd)
  then show ?case by (simp add: Cons.IH resolve_descriptor_eq)
qed

lemma for_elements_outcome:
  "for_elements h maxDepth item i es s =
     fold (\<lambda>(label, p). try_child h maxDepth item label (get_member p))
       (zip (map index_label [i..<i + length es]) es) s"
proof (induction es arbitrary: i s)
  case Nil
  show ?case by simp
next
  case (Cons e es)
  have "[i..<i + length (e # es)] = i # [Suc i..<Suc i + length es]"
    using upt_rec [of i "i + Suc (length es)"] by simp
  then show ?case by (simp add: Cons.IH)
qed

lemma expand_item_members:
  "expand_item h maxDepth item s =
     fold (\<lambda>(label, p). try_child h maxDepth item label (get_member p))
       (members h (obj item)) s"
  by (simp add: expand_item_def members_def for_keys_outcome for_elements_outcome
        split: jsobj.splits)

lemma try_child_step:
  assumes "node_at t (parent item) = Some (Node n ty v (Some xs))"
  shows "try_child h maxDepth item label (get_member p) (t, q, w) =
     (update_at (parent item)
        (push (child_node h maxDepth (depth item) (visited item) label (fst (get_member p w)))) t,
      q @ new_items maxDepth item (length xs) [(label, fst (get_member p w))],
      snd (get_member p w))"
proof -
  obtain out w' where g: "get_member p w = (out, w')" by (cases "get_member p w")
  show ?thesis
  proof (cases out)
    case Throws
    with g show ?thesis
      by (simp add: try_child_def child_node_def grows_def)
  next
    case (Returns val)
    with g assms show ?thesis
      by (cases val)
         (auto simp: try_child_def processChild_def child_node_def grows_def next_child_def
                     Let_def getPropertyType_VObject split: jsobj.splits)
  qed
qed

lemma push_as_set_children:
  "node_at t p = Some (Node n ty v (Some xs)) \<Longrightarrow>
     update_at p (push c) t = update_at p (set_children (xs @ [c])) t"
proof (induction p arbitrary: t)
  case Nil
  then show ?case by (simp add: set_children_def)
next
  case (Cons i p)
  then show ?case by (cases t) (auto split: option.splits if_splits)
qed

lemma update_at_set_children_twice:
  "update_at p (set_children cs) (update_at p (set_children ds) t) =
     update_at p (set_children cs) t"
proof -
  have "set_children cs \<circ> set_children ds = set_children cs"
    by (rule ext) (simp add: set_children_def)
  then show ?thesis by (simp add: update_at_compose)
qed

lemma members_step:
  assumes "node_at t (parent item) = Some (Node n ty v (Some xs))"
  shows "fold (\<lambda>(label, p). try_child h maxDepth item label (get_member p)) ms (t, q, w) =
     (update_at (parent item)
        (set_children (xs @ map (\<lambda>(label, out).
            child_node h maxDepth (depth item) (visited item) label out) (outcomes ms w))) t,
      q @ new_items maxDepth item (length xs) (outcomes ms w),
      world_after ms w)"
  using assms
proof (induction ms arbitrary: t q w xs)
  case Nil
  have "update_at (parent item) (set_children xs) t = t"
    using Nil by (rule update_at_same) (simp add: set_children_def)
  then show ?case by simp
next
  case (Cons m ms)
  obtain label p where m: "m = (label, p)" by (cases m)
  define c where "c = child_node h maxDepth (depth item) (visited item) label (fst (get_member p w))"
  define t1 where "t1 = update_at (parent item) (push c) t"
  have t1: "t1 = update_at (parent item) (set_children (xs @ [c])) t"
    unfolding t1_def using Cons.prems by (rule push_as_set_children)
  have n1: "node_at t1 (parent item) = Some (Node n ty v (Some (xs @ [c])))"
    unfolding t1 using node_at_update_at_self [OF Cons.prems] by (simp add: set_children_def)
  show ?case
    apply (simp add: m try_child_step [OF Cons.prems] flip: c_def t1_def)
    apply (simp add: Cons.IH [OF n1])
    apply (simp add: t1 update_at_set_children_twice c_def)
    done
qed

lemma expand_item_step:
  assumes "node_at t (parent item) = Some (Node n ty v (Some []))"
  shows "expand_item h maxDepth item (t, q, w) =
     (update_at (parent item)
        (set_children (map (\<lambda>(label, out).
            child_node h maxDepth (depth item) (visited item) label out)
          (outcomes (members h (obj item)) w))) t,
      q @ new_items maxDepth item 0 (outcomes (members h (obj item)) w),
      world_after (members h (obj item)) w)"
  using members_step [OF assms, of h maxDepth "members h (obj item)" q w]
  by (simp add: expand_item_members)

section \<open>The loop fills in finished children\<close>

lemma fill_child:
  assumes "length pre = k"
  shows "update_at (p @ [k]) f (update_at p (set_children (pre @ c # rest)) t) =
         update_at p (set_children (pre @ f c # rest)) t"
proof -
  have "update_at [k] f \<circ> set_children (pre @ c # rest) = set_children (pre @ f c # rest)"
    using assms by (auto simp: set_children_def fun_eq_iff)
  then show ?thesis by (simp add: update_at_append update_at_compose)
qed

lemma graft_fill:
  assumes "length cn = length (new_items maxDepth item k los)" and "length pre = k"
  shows "fold fill_one (zip (new_items maxDepth item k los) cn)
           (update_at (parent item)
              (set_children (pre @ map (\<lambda>(label, out).
                 child_node h maxDepth (depth item) (visited item) label out) los)) t) =
         update_at (parent item)
           (set_children (pre @ graft h maxDepth (depth item) (visited item) los cn)) t"
  using assms
proof (induction los arbitrary: pre k cn)
  case Nil
  then show ?case by simp
next
  case (Cons lo los)
  obtain label out where lo: "lo = (label, out)" by (cases lo)
  define c where "c = child_node h maxDepth (depth item) (visited item) label out"
  show ?case
  proof (cases "grows maxDepth (depth item) (visited item) out")
    case None
    from Cons.prems None have len: "length cn = length (new_items maxDepth item (Suc k) los)"
      by (simp add: lo)
    have "length (pre @ [c]) = Suc k" using Cons.prems by simp
    from Cons.IH [OF len this] None show ?thesis
      by (simp add: lo c_def)
  next
    case (Some a)
    with Cons.prems obtain c1 cn' where cn: "cn = c1 # cn'"
      and len: "length cn' = length (new_items maxDepth item (Suc k) los)"
      by (cases cn) (auto simp: lo)
    have l2: "length (pre @ [set_children c1 c]) = Suc k" using Cons.prems by simp
    from Cons.IH [OF len l2] Some Cons.prems(2) show ?thesis
      by (simp add: lo cn fill_one_def fill_child flip: c_def)
  qed
qed

lemma fold_fill_swap:
  assumes "\<forall>item \<in> set rest. parent item \<parallel> p"
  shows "fold fill_one (zip rest cr) (update_at p f t) =
         update_at p f (fold fill_one (zip rest cr) t)"
  using assms
proof (induction rest arbitrary: cr t)
  case Nil
  show ?case by simp
next
  case (Cons item rest)
  show ?case
  proof (cases cr)
    case Nil
    then show ?thesis by simp
  next
    case (Cons c cr')
    from Cons.prems have "parent item \<parallel> p" by simp
    then have "update_at (parent item) (set_children c) (update_at p f t) =
               update_at p f (update_at (parent item) (set_children c) t)"
      by (rule update_at_swap)
    with Cons.IH [of cr'] Cons.prems show ?thesis
      by (simp add: Cons fill_one_def)
  qed
qed

lemma get_member_possible: "possible p (fst (get_member p w))"
  by (cases p) auto

lemma child_node_member:
  assumes "possible p out" and "grows maxDepth d V out = None"
  shows "member_node h maxDepth V d (label, p) (child_node h maxDepth d V label out)"
proof (cases out)
  case Throws
  with assms(1) show ?thesis
    by (simp add: child_node_def member_node.raised)
next
  case (Returns v)
  show ?thesis
  proof (cases v)
    case (VObject a)
    with Returns assms show ?thesis
      by (auto simp: child_node_def grows_def split: if_splits
               intro: member_node.too_deep member_node.circular)
  next
    case (VFunction f)
    with Returns assms(1) show ?thesis
      by (simp add: child_node_def member_node.callable)
  qed (use Returns assms(1) member_node.terminal [where p = p and v = v and h = h] in
        \<open>auto simp: child_node_def\<close>)
qed

lemma child_node_grows:
  assumes "grows maxDepth d V out = Some a"
  shows "out = Returns (VObject a) \<and> d + 1 < maxDepth \<and> a \<notin> V
     \<and> child_node h maxDepth d V label out
         = Node label (getPropertyType h (VObject a)) None (Some [])"
  using assms
  by (auto simp: grows_def child_node_def split: outcome.splits jsval.splits if_splits)

lemma graft_member_nodes:
  assumes "list_all2 (item_expansion h maxDepth) (new_items maxDepth item k (outcomes ms w)) cn"
  shows "list_all2 (member_node h maxDepth (visited item) (depth item)) ms
           (graft h maxDepth (depth item) (visited item) (outcomes ms w) cn)"
  using assms
proof (induction ms arbitrary: w k cn)
  case Nil
  show ?case by simp
next
  case (Cons m ms)
  obtain label p where m: "m = (label, p)" by (cases m)
  define out where "out = fst (get_member p w)"
  define w' where "w' = snd (get_member p w)"
  have poss: "possible p out" unfolding out_def by (rule get_member_possible)
  show ?case
  proof (cases "grows maxDepth (depth item) (visited item) out")
    case None
    with Cons.prems have "list_all2 (item_expansion h maxDepth)
        (new_items maxDepth item (Suc k) (outcomes ms w')) cn"
      by (simp add: m out_def w'_def)
    from Cons.IH [OF this] child_node_member [OF poss None, of h label] None
    show ?thesis by (simp add: m flip: out_def w'_def)
  next
    case (Some a)
    with Cons.prems obtain c1 cn' where cn: "cn = c1 # cn'"
      and c1: "item_expansion h maxDepth
          \<lparr>obj = a, wname = label, depth = depth item + 1, parent = parent item @ [k],
           visited = insert a (visited item)\<rparr> c1"
      and rest: "list_all2 (item_expansion h maxDepth)
          (new_items maxDepth item (Suc k) (outcomes ms w')) cn'"
      by (auto simp: m list_all2_Cons1 simp flip: out_def w'_def)
    from child_node_grows [OF Some, of h label]
    have g: "out = Returns (VObject a)" "depth item + 1 < maxDepth" "a \<notin> visited item"
      "child_node h maxDepth (depth item) (visited item) label out
         = Node label (getPropertyType h (VObject a)) None (Some [])"
      by auto
    from c1 have "length c1 = length (members h a)"
      and "\<forall>j<length c1. member_node h maxDepth (insert a (visited item)) (depth item + 1)
              (members h a ! j) (c1 ! j)"
      by (auto simp: item_expansion_def expansion_def)
    with poss g have "member_node h maxDepth (visited item) (depth item) (label, p)
        (Node label (getPropertyType h (VObject a)) None (Some c1))"
      by (auto intro: member_node.expanded)
    with Cons.IH [OF rest] Some g show ?thesis
      by (simp add: m cn set_children_def flip: out_def w'_def)
  qed
qed

lemma length_outcomes [simp]: "length (outcomes ms w) = length ms"
  by (induction ms arbitrary: w) auto

lemma new_items_parent:
  assumes "item' \<in> set (new_items maxDepth item k los)"
  shows "\<exists>j label out a. j < length los \<and> los ! j = (label, out)
     \<and> grows maxDepth (depth item) (visited item) out = Some a
     \<and> parent item' = parent item @ [k + j]"
  using assms
proof (induction los arbitrary: k)
  case Nil
  then show ?case by simp
next
  case (Cons lo los)
  obtain label out where lo: "lo = (label, out)" by (cases lo)
  have "(\<exists>a. grows maxDepth (depth item) (visited item) out = Some a
            \<and> parent item' = parent item @ [k])
        \<or> item' \<in> set (new_items maxDepth item (Suc k) los)"
    using Cons.prems
    by (cases "grows maxDepth (depth item) (visited item) out") (auto simp: lo)
  then show ?case
  proof
    assume "\<exists>a. grows maxDepth (depth item) (visited item) out = Some a
            \<and> parent item' = parent item @ [k]"
    then show ?thesis by (intro exI [of _ 0]) (simp add: lo)
  next
    assume "item' \<in> set (new_items maxDepth item (Suc k) los)"
    from Cons.IH [OF this] obtain j label' out' a where
      "j < length los" "los ! j = (label', out')"
      "grows maxDepth (depth item) (visited item) out' = Some a"
      "parent item' = parent item @ [Suc k + j]"
      by blast
    then show ?thesis by (intro exI [of _ "Suc j"]) simp
  qed
qed

lemma new_items_distinct: "distinct (map parent (new_items maxDepth item k los))"
proof (induction los arbitrary: k)
  case Nil
  show ?case by simp
next
  case (Cons lo los)
  obtain label out where lo: "lo = (label, out)" by (cases lo)
  have "parent item @ [k] \<notin> parent ` set (new_items maxDepth item (Suc k) los)"
  proof
    assume "parent item @ [k] \<in> parent ` set (new_items maxDepth item (Suc k) los)"
    then obtain item' where "item' \<in> set (new_items maxDepth item (Suc k) los)"
      and "parent item' = parent item @ [k]" by auto
    with new_items_parent [of item' maxDepth item "Suc k" los] show False by auto
  qed
  with Cons.IH [of "Suc k"] show ?case
    by (simp add: lo split: option.splits)
qed

lemma pending_step:
  assumes pend: "pending t (item # rest)"
    and los: "los = outcomes (members h (obj item)) w"
    and kids: "kids = map (\<lambda>(label, out).
            child_node h maxDepth (depth item) (visited item) label out) los"
  shows "pending (update_at (parent item) (set_children kids) t)
           (rest @ new_items maxDepth item 0 los)"
    and "\<forall>r \<in> set rest. parent r \<parallel> parent item"
proof -
  from pend obtain n ty v where top: "node_at t (parent item) = Some (Node n ty v (Some []))"
    by (auto simp: pending_def)
  show par: "\<forall>r \<in> set rest. parent r \<parallel> parent item"
  proof
    fix r assume r: "r \<in> set rest"
    with pend obtain n' ty' v' where "node_at t (parent r) = Some (Node n' ty' v' (Some []))"
      by (auto simp: pending_def)
    moreover from pend have "parent item \<notin> parent ` set rest" by (simp add: pending_def)
    with r have "parent r \<noteq> parent item" by (metis imageI)
    ultimately show "parent r \<parallel> parent item"
      using top pending_parallel by blast
  qed
  define t1 where "t1 = update_at (parent item) (set_children kids) t"
  have rest_nodes: "\<exists>n ty v. node_at t1 (parent r) = Some (Node n ty v (Some []))"
    if "r \<in> set rest" for r
  proof -
    from par that have "parent r \<parallel> parent item" by blast
    then have "parent item \<parallel> parent r" by (simp add: parallel_commute)
    then have "node_at t1 (parent r) = node_at t (parent r)"
      unfolding t1_def by (rule node_at_update_at_parallel)
    with pend that show ?thesis by (auto simp: pending_def)
  qed
  have new_nodes: "\<exists>n ty v. node_at t1 (parent r) = Some (Node n ty v (Some []))"
    if "r \<in> set (new_items maxDepth item 0 los)" for r
  proof -
    from new_items_parent [OF that] obtain j label out a where j: "j < length los"
      and lo: "los ! j = (label, out)"
      and g: "grows maxDepth (depth item) (visited item) out = Some a"
      and p: "parent r = parent item @ [j]"
      by auto
    have "node_at t1 (parent item @ [j]) = node_at (set_children kids (Node n ty v (Some []))) [j]"
      unfolding t1_def using top by (rule node_at_update_at_below)
    also have "\<dots> = Some (kids ! j)"
      using j by (simp add: set_children_def kids)
    also have "kids ! j = child_node h maxDepth (depth item) (visited item) label out"
      using j lo by (simp add: kids)
    finally have "node_at t1 (parent r)
        = Some (child_node h maxDepth (depth item) (visited item) label out)"
      by (simp add: p)
    moreover from child_node_grows [OF g, of h label]
    have "child_node h maxDepth (depth item) (visited item) label out
        = Node label (getPropertyType h (VObject a)) None (Some [])"
      by blast
    ultimately show ?thesis by simp
  qed
  have "parent r \<noteq> parent r'"
    if "r \<in> set rest" and "r' \<in> set (new_items maxDepth item 0 los)" for r r'
  proof -
    from new_items_parent [OF that(2)] obtain j where "parent r' = parent item @ [j]"
      by auto
    moreover from par that(1) have "parent r \<parallel> parent item" by simp
    then have "parent r @ [] \<parallel> parent item @ [j]" by (rule parallel_append)
    ultimately show ?thesis by (auto simp: parallel_def)
  qed
  then have "distinct (map parent (rest @ new_items maxDepth item 0 los))"
    using pend new_items_distinct [of maxDepth item 0 los]
    by (auto simp: pending_def)
  with rest_nodes new_nodes
  show "pending (update_at (parent item) (set_children kids) t)
          (rest @ new_items maxDepth item 0 los)"
    unfolding pending_def t1_def by auto
qed

lemma while_queue_fill:
  "pending t queue \<Longrightarrow>
     \<exists>css. list_all2 (item_expansion h maxDepth) queue css
       \<and> fst (while_queue h maxDepth t queue w) = fold fill_one (zip queue css) t
       \<and> (\<forall>item rest. queue = item # rest \<longrightarrow>
            (\<exists>cn. hd css = graft h maxDepth (depth item) (visited item)
                               (outcomes (members h (obj item)) w) cn
               \<and> list_all2 (item_expansion h maxDepth)
                     (new_items maxDepth item 0 (outcomes (members h (obj item)) w)) cn))"
proof (induction h maxDepth t queue w rule: while_queue.induct)
  case (1 h maxDepth t w)
  show ?case by (simp add: while_queue.simps)
next
  case (2 h maxDepth t item rest w)
  define ms where "ms = members h (obj item)"
  define los where "los = outcomes ms w"
  define kids where "kids = map (\<lambda>(label, out).
            child_node h maxDepth (depth item) (visited item) label out) los"
  define new where "new = new_items maxDepth item 0 los"
  define t1 where "t1 = update_at (parent item) (set_children kids) t"
  from "2.prems" obtain n ty v where top: "node_at t (parent item) = Some (Node n ty v (Some []))"
    by (auto simp: pending_def)
  have step: "expand_item h maxDepth item (t, rest, w) = (t1, rest @ new, world_after ms w)"
    unfolding t1_def kids_def new_def los_def ms_def by (rule expand_item_step [OF top])
  have pend1: "pending t1 (rest @ new)"
    and par: "\<forall>r \<in> set rest. parent r \<parallel> parent item"
    using pending_step [OF "2.prems" los_def [unfolded ms_def] kids_def]
    by (simp_all add: t1_def new_def)
  from "2.IH" [OF step [symmetric] refl pend1]
  obtain css1 where all1: "list_all2 (item_expansion h maxDepth) (rest @ new) css1"
    and res1: "fst (while_queue h maxDepth t1 (rest @ new) (world_after ms w))
                 = fold fill_one (zip (rest @ new) css1) t1"
    by blast
  from all1 obtain cr cn where css1: "css1 = cr @ cn"
    and lr: "length cr = length rest" and ln: "length cn = length new"
    and ar: "list_all2 (item_expansion h maxDepth) rest cr"
    and an: "list_all2 (item_expansion h maxDepth) new cn"
    by (auto simp: list_all2_append1)
  define cs0 where "cs0 = graft h maxDepth (depth item) (visited item) los cn"
  have "list_all2 (member_node h maxDepth (visited item) (depth item)) ms cs0"
    unfolding cs0_def los_def using an [unfolded new_def los_def]
    by (rule graft_member_nodes)
  then have exp0: "item_expansion h maxDepth item cs0"
    by (simp add: item_expansion_def expansion_def ms_def list_all2_conv_all_nth)
  have "fold fill_one (zip (rest @ new) css1) t1
      = fold fill_one (zip new cn) (fold fill_one (zip rest cr) t1)"
    using lr by (simp add: css1)
  also have "fold fill_one (zip rest cr) t1
      = update_at (parent item) (set_children kids) (fold fill_one (zip rest cr) t)"
    unfolding t1_def using par by (rule fold_fill_swap)
  also have "fold fill_one (zip new cn) \<dots>
      = update_at (parent item) (set_children cs0) (fold fill_one (zip rest cr) t)"
    using graft_fill [of cn maxDepth item 0 los "[]" h] ln
    by (simp add: new_def kids_def cs0_def)
  also have "\<dots> = fold fill_one (zip rest cr) (update_at (parent item) (set_children cs0) t)"
    using par by (rule fold_fill_swap [symmetric])
  also have "\<dots> = fold fill_one (zip (item # rest) (cs0 # cr)) t"
    by (simp add: fill_one_def)
  finally have "fst (while_queue h maxDepth t (item # rest) w)
      = fold fill_one (zip (item # rest) (cs0 # cr)) t"
    using res1 by (simp add: step while_queue.simps)
  moreover have "list_all2 (item_expansion h maxDepth) (item # rest) (cs0 # cr)"
    using exp0 ar by simp
  moreover have "\<exists>cn. hd (cs0 # cr) = graft h maxDepth (depth item) (visited item)
                               (outcomes (members h (obj item)) w) cn
               \<and> list_all2 (item_expansion h maxDepth)
                     (new_items maxDepth item 0 (outcomes (members h (obj item)) w)) cn"
    using an unfolding cs0_def new_def los_def ms_def by auto
  ultimately show ?case by blast
qed

section \<open>The tree built for a container\<close>

lemma valid_of_nat [simp]:
  "\<not> is_negative (Finite (of_nat n))" "isInteger (Finite (of_nat n))"
  "depth_limit (Finite (of_nat n)) = n"
  by simp_all

lemma build_container:
  assumes "0 < maxDepth"
  shows "\<exists>cs w' cn. buildPropertyTree h w (VObject a) (Finite (of_nat maxDepth)) rootName
             = (Inr (Node rootName (getPropertyType h (VObject a)) None (Some cs)), w')
           \<and> expansion h maxDepth {a} 0 a cs
           \<and> cs = graft h maxDepth 0 {a} (outcomes (members h a) w) cn
           \<and> list_all2 (item_expansion h maxDepth)
                 (new_items maxDepth
                    \<lparr>obj = a, wname = rootName, depth = 0, parent = [], visited = {a}\<rparr> 0
                    (outcomes (members h a) w)) cn"
proof -
  define ty where "ty = getPropertyType h (VObject a)"
  define t0 where "t0 = Node rootName ty None (Some [])"
  define item where "item = \<lparr>obj = a, wname = rootName, depth = 0, parent = [], visited = {a}\<rparr>"
  have "pending t0 [item]" by (simp add: pending_def item_def t0_def)
  from while_queue_fill [OF this, of h maxDepth w]
  obtain cs cn where e: "item_expansion h maxDepth item cs"
    and r: "fst (while_queue h maxDepth t0 [item] w) = fold fill_one (zip [item] [cs]) t0"
    and g: "cs = graft h maxDepth 0 {a} (outcomes (members h a) w) cn"
    and n: "list_all2 (item_expansion h maxDepth)
              (new_items maxDepth item 0 (outcomes (members h a) w)) cn"
    by (auto simp: list_all2_Cons1 item_def)
  from r have "fst (while_queue h maxDepth t0 [item] w) = Node rootName ty None (Some cs)"
    by (simp add: fill_one_def item_def t0_def set_children_def)
  moreover have "ty = TObject \<or> ty = TArray" "ty \<noteq> TFunction"
    by (simp_all add: ty_def)
  moreover from assms have "(of_nat maxDepth :: rat) \<noteq> 0" by simp
  ultimately have "buildPropertyTree h w (VObject a) (Finite (of_nat maxDepth)) rootName
      = (Inr (Node rootName ty None (Some cs)), snd (while_queue h maxDepth t0 [item] w))"
    by (auto simp: buildPropertyTree_def Let_def split: prod.splits
             simp flip: ty_def t0_def item_def)
  moreover from e have "expansion h maxDepth {a} 0 a cs"
    by (simp add: item_expansion_def item_def)
  ultimately show ?thesis using g n by (auto simp: ty_def item_def)
qed

lemma expansion_node:
  assumes "expansion h maxDepth V d a cs" and "node_at (Node n ty v (Some cs)) (j # p) = Some x"
  shows "member_node h maxDepth V d (members h a ! j) (cs ! j) \<and> node_at (cs ! j) p = Some x"
  using assms by (auto simp: expansion_def split: if_splits)

text \<open>The forms of the tree that \<open>buildPropertyTree\<close> returns.\<close>

lemma build_cases:
  assumes "buildPropertyTree h w val (Finite (of_nat maxDepth)) rootName = (Inr t, w')"
  obtains
    (terminal) "t = Node rootName (getPropertyType h val) (Some val) None"
      "getPropertyType h val \<notin> {TObject, TArray, TFunction}"
  | (bare) "t = Node rootName (getPropertyType h val) None None"
      "getPropertyType h val = TFunction \<or> maxDepth = 0"
  | (container) a cs cn where "val = VObject a" "0 < maxDepth"
      "t = Node rootName (getPropertyType h val) None (Some cs)"
      "expansion h maxDepth {a} 0 a cs"
      "cs = graft h maxDepth 0 {a} (outcomes (members h a) w) cn"
proof (cases "getPropertyType h val \<notin> {TObject, TArray, TFunction}")
  case True
  with assms have "t = Node rootName (getPropertyType h val) (Some val) None"
    by (auto simp: buildPropertyTree_def Let_def)
  with True terminal show ?thesis by blast
next
  case False
  show ?thesis
  proof (cases "getPropertyType h val = TFunction \<or> maxDepth = 0")
    case True
    with False assms have "t = Node rootName (getPropertyType h val) None None"
      by (auto simp: buildPropertyTree_def Let_def)
    with True bare show ?thesis by blast
  next
    case nb: False
    with False obtain a where val: "val = VObject a"
      by (cases val) auto
    from nb have pos: "0 < maxDepth" by simp
    from build_container [OF pos, of h w a rootName] assms val
    obtain cs cn where "t = Node rootName (getPropertyType h val) None (Some cs)"
      and "expansion h maxDepth {a} 0 a cs"
      and "cs = graft h maxDepth 0 {a} (outcomes (members h a) w) cn"
      by auto
    with val pos container show ?thesis by blast
  qed
qed

lemma member_node_form:
  assumes "member_node h maxDepth V d m nd" and "node_at nd p = Some x"
  shows "node_form x"
  using assms
proof (induction arbitrary: p rule: member_node.induct)
  case (raised pr V d key)
  from node_at_leaf [OF raised.prems] show ?case by (simp add: node_form_def)
next
  case (terminal pr v V d key)
  from node_at_leaf [OF terminal.prems] terminal.hyps show ?case by (simp add: node_form_def)
next
  case (callable pr f V d key)
  from node_at_leaf [OF callable.prems] show ?case by (simp add: node_form_def)
next
  case (too_deep pr a d V key)
  from node_at_leaf [OF too_deep.prems] show ?case by (simp add: node_form_def)
next
  case (circular pr a d V key)
  from node_at_leaf [OF circular.prems] show ?case by (simp add: node_form_def)
next
  case (expanded pr a d V cs key)
  show ?case
  proof (cases p)
    case Nil
    with expanded.prems have "x = Node key (getPropertyType h (VObject a)) None (Some cs)"
      by simp
    then show ?thesis by (simp add: node_form_def)
  next
    case (Cons j p')
    with expanded.prems have "j < length cs" and "node_at (cs ! j) p' = Some x"
      by (auto split: if_splits)
    with expanded.IH show ?thesis by blast
  qed
qed

lemma member_node_depth:
  assumes "member_node h maxDepth V d m nd" and "node_at nd p = Some x"
    and "ntype x = TObject \<or> ntype x = TArray"
  shows "children x \<noteq> None \<longleftrightarrow> d + 1 + length p < maxDepth \<and> nvalue x = None"
  using assms
proof (induction arbitrary: p rule: member_node.induct)
  case (raised pr V d key)
  from node_at_leaf [OF raised.prems(1)] raised.prems(2) show ?case by simp
next
  case (terminal pr v V d key)
  from node_at_leaf [OF terminal.prems(1)] terminal.prems(2) terminal.hyps show ?case by simp
next
  case (callable pr f V d key)
  from node_at_leaf [OF callable.prems(1)] callable.prems(2) show ?case by simp
next
  case (too_deep pr a d V key)
  from node_at_leaf [OF too_deep.prems(1)] too_deep.hyps show ?case by simp
next
  case (circular pr a d V key)
  from node_at_leaf [OF circular.prems(1)] show ?case by simp
next
  case (expanded pr a d V cs key)
  show ?case
  proof (cases p)
    case Nil
    with expanded.prems have "x = Node key (getPropertyType h (VObject a)) None (Some cs)"
      by simp
    with expanded.hyps Nil show ?thesis by simp
  next
    case (Cons j p')
    with expanded.prems have "j < length cs" and "node_at (cs ! j) p' = Some x"
      by (auto split: if_splits)
    with expanded.IH expanded.prems(2) have
      "children x \<noteq> None \<longleftrightarrow> d + 1 + 1 + length p' < maxDepth \<and> nvalue x = None"
      by blast
    then show ?thesis by (simp add: Cons)
  qed
qed

lemma length_graft [simp]: "length (graft h maxDepth d V los cn) = length los"
  by (induction los arbitrary: cn) (auto split: option.splits)



lemma name_child_node [simp]: "name (child_node h maxDepth d V label out) = label"
  by (simp add: child_node_def split: outcome.splits jsval.splits)

lemma ntype_child_node [simp]:
  "ntype (child_node h maxDepth d V label (Returns v)) = getPropertyType h v"
  by (simp add: child_node_def split: jsval.splits)

lemma child_node_Throws [simp]:
  "child_node h maxDepth d V label Throws
     = Node label TError (Some (VString ACCESS_ERROR_MARKER)) None"
  by (simp add: child_node_def)

lemma graft_nth:
  assumes "j < length los"
  shows "name (graft h maxDepth d V los cn ! j) = fst (los ! j)
     \<and> ntype (graft h maxDepth d V los cn ! j)
          = ntype (child_node h maxDepth d V (fst (los ! j)) (snd (los ! j)))
     \<and> (grows maxDepth d V (snd (los ! j)) = None \<longrightarrow>
          graft h maxDepth d V los cn ! j
            = child_node h maxDepth d V (fst (los ! j)) (snd (los ! j)))"
  using assms
proof (induction los arbitrary: j cn)
  case Nil
  then show ?case by simp
next
  case (Cons lo los)
  obtain label out where lo: "lo = (label, out)" by (cases lo)
  show ?case
  proof (cases j)
    case 0
    then show ?thesis
      by (cases "grows maxDepth d V out") (simp_all add: lo set_children_def)
  next
    case (Suc i)
    with Cons.prems have "i < length los" by simp
    from Cons.IH [OF this] Suc show ?thesis
      by (cases "grows maxDepth d V out") (simp_all add: lo)
  qed
qed


lemma members_JObject: "h a = JObject ps \<Longrightarrow> members h a = ps"
  by (simp add: members_def)

lemma member_node_Data_container:
  assumes "member_node h maxDepth V d (key, Data (VObject a)) nd" and "d + 1 < maxDepth"
  shows "(a \<in> V \<longrightarrow> nd = Node key (getPropertyType h (VObject a))
                            (Some (VString CIRCULAR_REFERENCE_MARKER)) None)
     \<and> (a \<notin> V \<longrightarrow> (\<exists>cs. nd = Node key (getPropertyType h (VObject a)) None (Some cs)
                         \<and> expansion h maxDepth (insert a V) (d + 1) a cs))"
  using assms
  by (cases rule: member_node.cases) (auto simp: expansion_def)

lemma member_node_SetterOnly:
  assumes "member_node h maxDepth V d (key, SetterOnly) nd"
  shows "nd = Node key TUndefined (Some VUndefined) None"
  using assms
  by (cases rule: member_node.cases) auto

lemma type_name_one_line: "newline \<notin> set (type_name ty)"
  by (cases ty) (simp_all add: str_def newline_def)

lemma format_bare_node:
  "formatPropertyTreeToString host (Node n ty None None)
     = LAST_CONNECTOR @ n @ str '' ('' @ type_name ty @ str '')''"
  by (simp add: formatPropertyTreeToString_def value_suffix_def Let_def)

section \<open>The examples, evaluated\<close>

lemmas build_eval =
  buildPropertyTree_def while_queue.simps expand_item_def try_child_def processChild_def
  getPropertyType_VObject next_child_def Let_def

lemma self_ref_depth1:
  "buildPropertyTree self_ref 0 (VObject 0) (Finite 1) (str ''root'') =
     (Inr (Node (str ''root'') TObject None (Some
        [Node (str ''name'') TString (Some (VString (str ''Circular''))) None,
         Node (str ''self'') TObject None None])), 0)"
  by (simp add: build_eval self_ref_def)

lemma self_ref_depth3:
  "buildPropertyTree self_ref 0 (VObject 0) (Finite 3) (str ''root'') =
     (Inr (Node (str ''root'') TObject None (Some
        [Node (str ''name'') TString (Some (VString (str ''Circular''))) None,
         Node (str ''self'') TObject (Some (VString CIRCULAR_REFERENCE_MARKER)) None])), 0)"
  by (simp add: build_eval self_ref_def)

lemma self_ref_depth0:
  "buildPropertyTree self_ref 0 (VObject 0) (Finite 0) (str ''root'') =
     (Inr (Node (str ''root'') TObject None None), 0)"
  by (simp add: build_eval self_ref_def)

lemma diamond_depth3:
  "buildPropertyTree diamond 0 (VObject 0) (Finite 3) (str ''root'') =
     (Inr (Node (str ''root'') TObject None (Some
        [Node (str ''x'') TObject None (Some
           [Node (str ''up'') TObject (Some (VString CIRCULAR_REFERENCE_MARKER)) None,
            Node (str ''me'') TObject (Some (VString CIRCULAR_REFERENCE_MARKER)) None]),
         Node (str ''y'') TObject None (Some
           [Node (str ''up'') TObject (Some (VString CIRCULAR_REFERENCE_MARKER)) None,
            Node (str ''me'') TObject (Some (VString CIRCULAR_REFERENCE_MARKER)) None])])), 0)"
  by (simp add: build_eval diamond_def)

section \<open>Ordinary objects in the general traversal\<close>

text \<open>
  On ordinary objects whose keys are distinct the general traversal returns, and it returns
  what the traversal of the first model returns.
\<close>

lemma isArray_ordinary: "isArray_full (ordinary h) w v = Some (isArray h v)"
  by (simp add: isArray_full_def isArray_def ordinary_def host_of_def
           split: jsval.splits jsobj.splits)

lemma getPropertyType_ordinary:
  "getPropertyType_full (ordinary h) w v = Some (getPropertyType h v)"
  by (simp add: getPropertyType_full_def getPropertyType_def isArray_ordinary Let_def)

lemma processChild_ordinary:
  "processChild_full (ordinary h) w p key v d maxDepth V s
     = Some (processChild h p key v d maxDepth V s)"
  by (simp add: processChild_full_def processChild_def getPropertyType_ordinary Let_def
           split: prod.splits jsval.splits)

lemma try_child_ordinary:
  assumes "\<And>w. rd' w = (Some (fst (rd w)), snd (rd w))"
  shows "try_child_full (ordinary h) maxDepth item label rd' s
     = try_child h maxDepth item label rd s"
proof -
  obtain t q w where s: "s = (t, q, w)" by (cases s)
  obtain out w' where r: "rd w = (out, w')" by (cases "rd w")
  with assms [of w] have r': "rd' w = (Some out, w')" by simp
  show ?thesis
    by (cases out)
       (simp_all add: s r r' try_child_full_def try_child_def processChild_ordinary
             split: prod.splits)
qed

lemma for_elements_ordinary:
  assumes "h (obj item) = JArray es"
  shows "i \<le> length es \<Longrightarrow> for_elements_full (ordinary h) maxDepth item i s
     = Some (Inr (for_elements h maxDepth item i (drop i es) s))"
proof (induction "length es - i" arbitrary: i s)
  case 0
  then have i: "i = length es" by simp
  obtain t q w where s: "s = (t, q, w)" by (cases s)
  show ?case
    by (subst for_elements_full.simps) (simp add: s i ordinary_def host_of_def assms)
next
  case (Suc n)
  then have lt: "i < length es" by simp
  obtain t q w where s: "s = (t, q, w)" by (cases s)
  have rd: "resolve_index (ordinary h (obj item)) i w
      = (Some (fst (get_member (es ! i) w)), snd (get_member (es ! i) w))" for w
    using lt by (simp add: resolve_index_def ordinary_def host_of_def assms split: prod.splits)
  from Suc.hyps(2) lt have n: "n = length es - (i + 1)" by simp
  from lt have le: "i + 1 \<le> length es" by simp
  have d: "drop i es = es ! i # drop (i + 1) es"
    using lt by (simp add: Cons_nth_drop_Suc)
  have "for_elements_full (ordinary h) maxDepth item i s
      = for_elements_full (ordinary h) maxDepth item (i + 1)
          (try_child_full (ordinary h) maxDepth item (index_label i)
             (resolve_index (ordinary h (obj item)) i) s)"
    using lt
    by (subst for_elements_full.simps) (simp add: s ordinary_def host_of_def assms)
  also have "\<dots> = for_elements_full (ordinary h) maxDepth item (i + 1)
          (try_child h maxDepth item (index_label i) (get_member (es ! i)) s)"
    by (simp add: try_child_ordinary [OF rd])
  also have "\<dots> = Some (Inr (for_elements h maxDepth item (i + 1) (drop (i + 1) es)
          (try_child h maxDepth item (index_label i) (get_member (es ! i)) s)))"
    by (rule Suc.hyps(1) [OF n le])
  finally show ?case by (simp add: d)
qed

lemma resolve_key_ordinary:
  assumes "map_of ps key = Some d"
  shows "resolve_key (host_of (JObject ps)) key w
     = (Some (fst (resolve_descriptor d w)), snd (resolve_descriptor d w))"
  using assms
  by (cases d) (simp_all add: resolve_key_def host_of_def descriptor_of_def split: prod.splits)

lemma for_keys_ordinary:
  assumes "h (obj item) = JObject ps" and "distinct (map fst ps)"
  shows "set qs \<subseteq> set ps \<Longrightarrow> for_keys_full (ordinary h) maxDepth item (map fst qs) s
     = for_keys h maxDepth item qs s"
proof (induction qs arbitrary: s)
  case Nil
  then show ?case by simp
next
  case (Cons kd qs)
  obtain key d where kd: "kd = (key, d)" by (cases kd)
  with Cons.prems have "(key, d) \<in> set ps" by simp
  with assms(2) have m: "map_of ps key = Some d" by simp
  from Cons.prems have sub: "set qs \<subseteq> set ps" by simp
  have "try_child_full (ordinary h) maxDepth item key (resolve_key (ordinary h (obj item)) key) s
      = try_child h maxDepth item key (resolve_descriptor d) s"
    by (rule try_child_ordinary) (simp add: ordinary_def assms(1) resolve_key_ordinary [OF m])
  with Cons.IH [OF sub] show ?case by (simp add: kd)
qed

lemma expand_item_ordinary:
  assumes "keys_distinct h"
  shows "expand_item_full (ordinary h) maxDepth item s
     = Some (Inr (expand_item h maxDepth item s))"
proof (cases "h (obj item)")
  case (JArray es)
  obtain t q w where s: "s = (t, q, w)" by (cases s)
  have "isArray_full (ordinary h) w (VObject (obj item)) = Some True"
    by (simp add: isArray_ordinary isArray_def JArray)
  with for_elements_ordinary [where h = h and item = item and es = es and i = 0
      and maxDepth = maxDepth and s = s, OF JArray] show ?thesis
    by (simp add: expand_item_full_def expand_item_def JArray s)
next
  case (JObject ps)
  obtain t q w where s: "s = (t, q, w)" by (cases s)
  from assms JObject have d: "distinct (map fst ps)" by (simp add: keys_distinct_def)
  have "isArray_full (ordinary h) w (VObject (obj item)) = Some False"
    by (simp add: isArray_ordinary isArray_def JObject)
  moreover have "own_keys (ordinary h (obj item)) w = (Inr (map fst ps), w)"
    by (simp add: ordinary_def host_of_def JObject)
  ultimately show ?thesis
    using for_keys_ordinary [where h = h and item = item and ps = ps and qs = ps
      and maxDepth = maxDepth and s = s, OF JObject d subset_refl]
    by (simp add: expand_item_full_def expand_item_def JObject s)
qed

lemma while_queue_ordinary:
  "keys_distinct h \<Longrightarrow> while_queue_full (ordinary h) maxDepth t queue w
     = Some (Inr (while_queue h maxDepth t queue w))"
proof (induction h maxDepth t queue w rule: while_queue.induct)
  case (1 h maxDepth t w)
  show ?case by (subst while_queue_full.simps) (simp add: while_queue.simps)
next
  case (2 h maxDepth t item rest w)
  obtain t1 q1 w1 where e: "expand_item h maxDepth item (t, rest, w) = (t1, q1, w1)"
    by (metis prod_cases3)
  from "2.IH" [OF e [symmetric] refl "2.prems"]
  have "while_queue_full (ordinary h) maxDepth t1 q1 w1
      = Some (Inr (while_queue h maxDepth t1 q1 w1))" by simp
  then show ?case
    by (subst while_queue_full.simps)
       (simp add: expand_item_ordinary [OF "2.prems"] e while_queue.simps)
qed

lemma buildPropertyTree_ordinary:
  assumes "keys_distinct h"
  shows "buildPropertyTree_full (ordinary h) w val maxDepth rootName
     = Some (buildPropertyTree h w val maxDepth rootName)"
  by (simp add: buildPropertyTree_full_def buildPropertyTree_def getPropertyType_ordinary
        while_queue_ordinary [OF assms] Let_def split: jsval.splits prod.splits)


section \<open>Where an error leaves the general traversal\<close>





lemma getPropertyType_full_None:
  "getPropertyType_full h w v = None
     \<longleftrightarrow> (\<exists>a. (v = VObject a \<or> v = VFunction a) \<and> revoked (h a) w)"
  by (cases v)
     (auto simp: getPropertyType_full_def isArray_full_def Let_def
           split: option.splits bool.splits)

lemma buildPropertyTree_full_invalid:
  "buildPropertyTree_full h w v d rn = Some (Inl (InvalidDepthError x), w')
     \<longleftrightarrow> (is_negative d \<or> \<not> isInteger d) \<and> x = d \<and> w' = w"
  by (auto simp: buildPropertyTree_full_def
           split: option.splits jsval.splits sum.splits prod.splits)

lemma buildPropertyTree_full_depth0:
  "buildPropertyTree_full h w v (Finite 0) rn =
     (case getPropertyType_full h w v of
        None \<Rightarrow> Some (Inl (Uncaught TypeError), w)
      | Some ty \<Rightarrow>
          Some (Inr (Node rn ty (if ty \<in> {TObject, TArray, TFunction} then None else Some v)
                       None), w))"
  by (simp add: buildPropertyTree_full_def split: option.splits)


section \<open>The general examples, evaluated\<close>

lemmas build_full_eval =
  buildPropertyTree_full_def getPropertyType_full_def isArray_full_def
  while_queue_full.simps for_elements_full.simps
  expand_item_full_def try_child_full_def processChild_full_def resolve_key_def
  resolve_index_def next_child_def Let_def host_of_def descriptor_of_def str_def

lemma revoked_root_simps:
  "revoked_root 0 = revoked_proxy"
  by (simp add: revoked_root_def)







section \<open>Validation of maxDepth\<close>

text \<open>
  The depths that pass the validation are the natural numbers; the claims about built trees
  are stated for \<open>Finite (of_nat maxDepth)\<close>.
\<close>

lemma valid_depth_iff:
  "\<not> (is_negative d \<or> \<not> isInteger d) \<longleftrightarrow> (\<exists>n::nat. d = Finite (of_nat n))"
proof
  assume a: "\<not> (is_negative d \<or> \<not> isInteger d)"
  then obtain r where d: "d = Finite r" by (cases d) auto
  with a have "0 \<le> r" and "of_int \<lfloor>r\<rfloor> = r" by auto
  then have "r = of_nat (nat \<lfloor>r\<rfloor>)"
    by (metis of_nat_nat zero_le_floor)
  with d show "\<exists>n::nat. d = Finite (of_nat n)" by blast
next
  assume "\<exists>n::nat. d = Finite (of_nat n)"
  then show "\<not> (is_negative d \<or> \<not> isInteger d)" by auto
qed

lemma buildPropertyTree_valid:
  "\<not> (is_negative d \<or> \<not> isInteger d) \<Longrightarrow> \<exists>t w'. buildPropertyTree h w v d rn = (Inr t, w')"
  by (auto simp: buildPropertyTree_def Let_def split: jsval.splits prod.splits)

lemma invalid_depth_iff:
  "is_negative d \<or> \<not> isInteger d \<longleftrightarrow> (\<forall>r. d = Finite r \<longrightarrow> r < 0 \<or> r \<notin> \<int>)"
  by (cases d) (simp_all add: isInteger_iff del: isInteger.simps(1))

text \<open>On ordinary objects the general traversal ends and raises nothing at a valid depth.\<close>

lemma buildPropertyTree_ordinary_returns:
  assumes "keys_distinct h" and "\<not> (is_negative d \<or> \<not> isInteger d)"
  shows "\<exists>t w'. buildPropertyTree_full (ordinary h) w v d rn = Some (Inr t, w')"
  using buildPropertyTree_valid [OF assms(2), of h w v rn]
  by (auto simp: buildPropertyTree_ordinary [OF assms(1)])

text \<open>
  C4, as amended. \<open>buildPropertyTree\<close> raises \<open>InvalidDepthError\<close> exactly when \<open>maxDepth\<close>
  is negative or not an integer (a finite value below zero or with a fraction, \<open>NaN\<close>, or an
  infinity); the error carries that depth, whatever the input value is, and nothing has run
  before it (the world is unchanged), also where every operation on the input would raise.
  With \<open>maxDepth = 0\<close> the call returns the root node alone, unless classifying the input
  raises; that happens exactly for a revoked proxy, on which \<open>Array.isArray\<close> raises
  \<open>TypeError\<close>. For an ordinary value the call with \<open>maxDepth = 0\<close> always returns.
\<close>

theorem C4_invalid_depth:
  "(buildPropertyTree_full H w v d rn = Some (Inl (InvalidDepthError x), w')
      \<longleftrightarrow> (\<forall>r. d = Finite r \<longrightarrow> r < 0 \<or> r \<notin> \<int>) \<and> x = d \<and> w' = w)
   \<and> buildPropertyTree_full H w v (Finite 0) rn =
       (case getPropertyType_full H w v of
          None \<Rightarrow> Some (Inl (Uncaught TypeError), w)
        | Some ty \<Rightarrow>
            Some (Inr (Node rn ty (if ty \<in> {TObject, TArray, TFunction} then None else Some v)
                         None), w))
   \<and> (getPropertyType_full H w v = None
        \<longleftrightarrow> (\<exists>a. (v = VObject a \<or> v = VFunction a) \<and> revoked (H a) w))
   \<and> (\<exists>t. buildPropertyTree_full (ordinary h) w v (Finite 0) rn = Some (Inr t, w))"
proof (intro conjI)
  show "buildPropertyTree_full H w v d rn = Some (Inl (InvalidDepthError x), w')
      \<longleftrightarrow> (\<forall>r. d = Finite r \<longrightarrow> r < 0 \<or> r \<notin> \<int>) \<and> x = d \<and> w' = w"
    using buildPropertyTree_full_invalid [of H w v d rn x w'] invalid_depth_iff [of d]
    by simp
  show "buildPropertyTree_full H w v (Finite 0) rn =
       (case getPropertyType_full H w v of
          None \<Rightarrow> Some (Inl (Uncaught TypeError), w)
        | Some ty \<Rightarrow>
            Some (Inr (Node rn ty (if ty \<in> {TObject, TArray, TFunction} then None else Some v)
                         None), w))"
    by (rule buildPropertyTree_full_depth0)
  show "getPropertyType_full H w v = None
        \<longleftrightarrow> (\<exists>a. (v = VObject a \<or> v = VFunction a) \<and> revoked (H a) w)"
    by (rule getPropertyType_full_None)
  show "\<exists>t. buildPropertyTree_full (ordinary h) w v (Finite 0) rn = Some (Inr t, w)"
    by (simp add: buildPropertyTree_full_depth0 getPropertyType_ordinary)
qed

theorem C4_invalid_depth_witness:
  "buildPropertyTree_full revoked_root 0 (VObject 0) (Finite (3 / 2)) (str ''root'')
     = Some (Inl (InvalidDepthError (Finite (3 / 2))), 0)
   \<and> buildPropertyTree_full revoked_root 0 (VObject 0) (Finite (- 1)) (str ''root'')
     = Some (Inl (InvalidDepthError (Finite (- 1))), 0)
   \<and> buildPropertyTree_full revoked_root 0 (VObject 1) (Finite 0) (str ''root'')
     = Some (Inr (Node (str ''root'') TObject None None), 0)
   \<and> buildPropertyTree_full revoked_root 0 (VString (str ''hello'')) (Finite 0) (str ''root'')
     = Some (Inr (Node (str ''root'') TString (Some (VString (str ''hello''))) None), 0)"
proof -
  have "\<not> isInteger (Finite (3 / 2))" by code_simp
  with invalid_depth_iff [of "Finite (3 / 2)"]
  have "\<forall>r. Finite (3 / 2) = Finite r \<longrightarrow> r < 0 \<or> r \<notin> \<int>" by blast
  with C4_invalid_depth [of revoked_root 0 "VObject 0" "Finite (3 / 2)" "str ''root''"
      "Finite (3 / 2)" 0]
  have 1: "buildPropertyTree_full revoked_root 0 (VObject 0) (Finite (3 / 2)) (str ''root'')
     = Some (Inl (InvalidDepthError (Finite (3 / 2))), 0)"
    by blast
  have "is_negative (Finite (- 1))" by simp
  with invalid_depth_iff [of "Finite (- 1)"]
  have "\<forall>r. Finite (- 1) = Finite r \<longrightarrow> r < 0 \<or> r \<notin> \<int>" by blast
  with C4_invalid_depth [of revoked_root 0 "VObject 0" "Finite (- 1)" "str ''root''"
      "Finite (- 1)" 0]
  have 2: "buildPropertyTree_full revoked_root 0 (VObject 0) (Finite (- 1)) (str ''root'')
     = Some (Inl (InvalidDepthError (Finite (- 1))), 0)"
    by blast
  have r: "\<not> revoked (revoked_root 1) 0" "\<not> array (revoked_root 1)"
    by (simp_all add: revoked_root_def ordinary_def host_of_def)
  then have "getPropertyType_full revoked_root 0 (VObject 1) = Some TObject"
    by (simp add: getPropertyType_full_def isArray_full_def)
  with C4_invalid_depth [of revoked_root 0 "VObject 1" "Finite 0" "str ''root''"]
  have 3: "buildPropertyTree_full revoked_root 0 (VObject 1) (Finite 0) (str ''root'')
     = Some (Inr (Node (str ''root'') TObject None None), 0)"
    by simp
  have "getPropertyType_full revoked_root 0 (VString (str ''hello'')) = Some TString"
    by (simp add: getPropertyType_full_def isArray_full_def)
  with C4_invalid_depth [of revoked_root 0 "VString (str ''hello'')" "Finite 0" "str ''root''"]
  have 4: "buildPropertyTree_full revoked_root 0 (VString (str ''hello'')) (Finite 0)
      (str ''root'')
     = Some (Inr (Node (str ''root'') TString (Some (VString (str ''hello''))) None), 0)"
    by simp
  from 1 2 3 4 show ?thesis by simp
qed

text \<open>
  A revoked proxy as the input: \<open>buildPropertyTree\<close> with \<open>maxDepth = 0\<close> raises
  \<open>TypeError\<close>.
\<close>

theorem C4_revoked_proxy_counterexample:
  "buildPropertyTree_full revoked_root 0 (VObject 0) (Finite 0) (str ''root'')
     = Some (Inl (Uncaught TypeError), 0)"
  by (simp add: build_full_eval revoked_root_simps revoked_proxy_def)

section \<open>The forms of a node\<close>

text \<open>
  C6. In a tree returned by \<open>buildPropertyTree\<close> (for any input value and any valid depth),
  no node has both a value and children; and a node of kind object or array that has a
  value is a circular-reference node: its value is the circular-reference marker and it
  has no children.
\<close>

theorem C6_node_forms:
  assumes "buildPropertyTree h w val (Finite (of_nat maxDepth)) rootName = (Inr t, w')"
    and "node_at t p = Some nd"
  shows "(nvalue nd = None \<or> children nd = None)
     \<and> ((ntype nd = TObject \<or> ntype nd = TArray) \<and> nvalue nd \<noteq> None \<longrightarrow>
          nvalue nd = Some (VString CIRCULAR_REFERENCE_MARKER) \<and> children nd = None)"
proof -
  have "node_form nd"
    using assms(1)
  proof (cases rule: build_cases)
    case terminal
    with assms(2) have "nd = Node rootName (getPropertyType h val) (Some val) None"
      by (auto dest: node_at_leaf)
    with terminal(2) show ?thesis by (simp add: node_form_def)
  next
    case bare
    with assms(2) have "nd = Node rootName (getPropertyType h val) None None"
      by (auto dest: node_at_leaf)
    then show ?thesis by (simp add: node_form_def)
  next
    case (container a cs cn)
    show ?thesis
    proof (cases p)
      case Nil
      with assms(2) container show ?thesis by (auto simp: node_form_def)
    next
      case (Cons j p')
      with assms(2) container expansion_node [of h maxDepth "{a}" 0 a cs _ _ _ j p' nd]
      have "member_node h maxDepth {a} 0 (members h a ! j) (cs ! j)"
        and "node_at (cs ! j) p' = Some nd"
        by auto
      then show ?thesis by (rule member_node_form)
    qed
  qed
  then show ?thesis by (simp add: node_form_def)
qed

theorem C6_node_forms_witness:
  "\<exists>t w' nd. buildPropertyTree diamond 0 (VObject 0) (Finite 3) (str ''root'') = (Inr t, w')
     \<and> node_at t [0, 0] = Some nd \<and> ntype nd = TObject
     \<and> nvalue nd = Some (VString CIRCULAR_REFERENCE_MARKER) \<and> children nd = None"
proof -
  define t where "t = Node (str ''root'') TObject None (Some
        [Node (str ''x'') TObject None (Some
           [Node (str ''up'') TObject (Some (VString CIRCULAR_REFERENCE_MARKER)) None,
            Node (str ''me'') TObject (Some (VString CIRCULAR_REFERENCE_MARKER)) None]),
         Node (str ''y'') TObject None (Some
           [Node (str ''up'') TObject (Some (VString CIRCULAR_REFERENCE_MARKER)) None,
            Node (str ''me'') TObject (Some (VString CIRCULAR_REFERENCE_MARKER)) None])])"
  define nd where "nd = Node (str ''up'') TObject (Some (VString CIRCULAR_REFERENCE_MARKER)) None"
  have b: "buildPropertyTree diamond 0 (VObject 0) (Finite (of_nat 3)) (str ''root'') = (Inr t, 0)"
    by (simp add: diamond_depth3 t_def)
  have n: "node_at t [0, 0] = Some nd" by (simp add: t_def nd_def)
  from C6_node_forms [OF b n] have "nvalue nd = Some (VString CIRCULAR_REFERENCE_MARKER)
      \<and> children nd = None"
    by (simp add: nd_def)
  with b n show ?thesis by (auto simp: nd_def)
qed

text \<open>
  C2, as amended. In a tree built for an object or an array, a node of kind object or
  array has children exactly when its depth from the root is below \<open>maxDepth\<close> and it is
  not a circular-reference node (it has no value); and with \<open>maxDepth = 0\<close> the rendering
  of the tree contains no newline, provided the root label contains none.
\<close>

theorem C2_children_iff_depth:
  assumes "buildPropertyTree h w (VObject a) (Finite (of_nat maxDepth)) rootName = (Inr t, w')"
  shows "(\<forall>p nd. node_at t p = Some nd \<and> (ntype nd = TObject \<or> ntype nd = TArray) \<longrightarrow>
            (children nd \<noteq> None \<longleftrightarrow> length p < maxDepth \<and> nvalue nd = None))
     \<and> (maxDepth = 0 \<and> newline \<notin> set rootName \<longrightarrow>
            newline \<notin> set (formatPropertyTreeToString host t))"
proof (intro conjI allI impI)
  fix p nd
  assume nd: "node_at t p = Some nd \<and> (ntype nd = TObject \<or> ntype nd = TArray)"
  from assms show "children nd \<noteq> None \<longleftrightarrow> length p < maxDepth \<and> nvalue nd = None"
  proof (cases rule: build_cases)
    case terminal
    then show ?thesis by simp
  next
    case bare
    with nd have "nd = Node rootName (getPropertyType h (VObject a)) None None" "p = []"
      by (auto dest: node_at_leaf node_at_leaf_path)
    with bare(2) show ?thesis by simp
  next
    case (container b cs cn)
    show ?thesis
    proof (cases p)
      case Nil
      with nd container show ?thesis by auto
    next
      case (Cons j p')
      with nd container expansion_node [of h maxDepth "{b}" 0 b cs _ _ _ j p' nd]
      have "member_node h maxDepth {b} 0 (members h b ! j) (cs ! j)"
        and "node_at (cs ! j) p' = Some nd"
        by auto
      from member_node_depth [OF this] nd show ?thesis by (simp add: Cons)
    qed
  qed
next
  assume z: "maxDepth = 0 \<and> newline \<notin> set rootName"
  from assms have "t = Node rootName (getPropertyType h (VObject a)) None None"
  proof (cases rule: build_cases)
    case terminal
    then show ?thesis by simp
  next
    case bare
    then show ?thesis by simp
  next
    case (container b cs cn)
    with z show ?thesis by simp
  qed
  with z type_name_one_line show "newline \<notin> set (formatPropertyTreeToString host t)"
    by (simp add: format_bare_node LAST_CONNECTOR_def str_def newline_def)
qed

theorem C2_children_iff_depth_witness:
  "newline \<notin> set (formatPropertyTreeToString (\<lambda>v. []) (Node (str ''root'') TObject None None))
   \<and> buildPropertyTree self_ref 0 (VObject 0) (Finite 0) (str ''root'')
       = (Inr (Node (str ''root'') TObject None None), 0)"
proof -
  have "buildPropertyTree self_ref 0 (VObject 0) (Finite (of_nat 0)) (str ''root'')
      = (Inr (Node (str ''root'') TObject None None), 0)"
    by (simp add: self_ref_depth0)
  from C2_children_iff_depth [OF this, of "\<lambda>v. []"] self_ref_depth0
  show ?thesis by (simp add: str_def newline_def)
qed

text \<open>
  The claim as stated fails on a circular-reference node: in the tree of the object that
  holds itself, built with \<open>maxDepth = 3\<close>, the node of the property \<open>self\<close> is of kind
  object at depth 1 and has no children.
\<close>

theorem C2_circular_counterexample:
  "\<exists>t w' nd. buildPropertyTree self_ref 0 (VObject 0) (Finite 3) (str ''root'') = (Inr t, w')
     \<and> node_at t [1] = Some nd \<and> ntype nd = TObject \<and> length [1 :: nat] < 3
     \<and> children nd = None"
  by (simp add: self_ref_depth3)

section \<open>The members of an object\<close>

text \<open>
  C1, as amended. For an object \<open>a\<close> with a data property that holds \<open>a\<close> itself and
  every \<open>maxDepth\<close> of at least 2, the child node of that property is of kind object, its
  value is the circular-reference marker, and it has no children.
\<close>

theorem C1_self_reference:
  assumes "h a = JObject ps" and "j < length ps" and "ps ! j = (key, Data (VObject a))"
    and "2 \<le> maxDepth"
  shows "\<exists>cs w'. buildPropertyTree h w (VObject a) (Finite (of_nat maxDepth)) rootName
            = (Inr (Node rootName TObject None (Some cs)), w')
          \<and> length cs = length ps
          \<and> cs ! j = Node key TObject (Some (VString CIRCULAR_REFERENCE_MARKER)) None"
proof -
  from assms(4) have "0 < maxDepth" by simp
  from build_container [OF this, of h w a rootName]
  obtain cs w' where b: "buildPropertyTree h w (VObject a) (Finite (of_nat maxDepth)) rootName
            = (Inr (Node rootName (getPropertyType h (VObject a)) None (Some cs)), w')"
    and e: "expansion h maxDepth {a} 0 a cs"
    by blast
  have ty: "getPropertyType h (VObject a) = TObject"
    using assms(1) by (simp add: getPropertyType_VObject)
  from e assms(1) have len: "length cs = length ps"
    by (simp add: expansion_def members_JObject)
  with e assms(1,2,3) have "member_node h maxDepth {a} 0 (key, Data (VObject a)) (cs ! j)"
    by (auto simp: expansion_def members_JObject)
  from member_node_Data_container [OF this] assms(4) ty
  have "cs ! j = Node key TObject (Some (VString CIRCULAR_REFERENCE_MARKER)) None"
    by simp
  with b len ty show ?thesis by auto
qed

theorem C1_self_reference_witness:
  "\<exists>cs w'. buildPropertyTree self_ref 0 (VObject 0) (Finite 3) (str ''root'')
       = (Inr (Node (str ''root'') TObject None (Some cs)), w')
     \<and> cs ! 1 = Node (str ''self'') TObject (Some (VString CIRCULAR_REFERENCE_MARKER)) None"
proof -
  have h: "self_ref 0 = JObject [(str ''name'', Data (VString (str ''Circular''))),
                                (str ''self'', Data (VObject 0))]"
    by (simp add: self_ref_def)
  from C1_self_reference [where h = self_ref and a = 0 and j = 1 and key = "str ''self''"
      and maxDepth = 3 and w = 0 and rootName = "str ''root''", OF h]
  show ?thesis by auto
qed

text \<open>
  With \<open>maxDepth = 1\<close> the cycle test is never reached: \<open>processChild\<close> tests
  \<open>currentDepth + 1 < maxDepth\<close> first, and the child is left without value and children.
\<close>

theorem C1_depth_one_counterexample:
  "\<exists>cs. fst (buildPropertyTree self_ref 0 (VObject 0) (Finite 1) (str ''root''))
       = Inr (Node (str ''root'') TObject None (Some cs))
     \<and> \<not> (\<exists>c \<in> set cs. name c = str ''self''
             \<and> nvalue c = Some (VString CIRCULAR_REFERENCE_MARKER))"
  by (simp add: self_ref_depth1, simp add: str_def)






text \<open>
  C7, as amended. In the tree built for a container with \<open>maxDepth\<close> of at least 1, the
  child of a setter-only member is of kind undefined (the kind \<open>absent\<close>) with the value
  \<open>undefined\<close> and no children; it is not an access-error node. This holds for the members
  of the root and, since the tree is an \<open>expansion\<close>, for the members of every container
  that is expanded below it.
\<close>

theorem C7_setter_only:
  assumes "0 < maxDepth"
  shows "(\<exists>cs w'. buildPropertyTree h w (VObject a) (Finite (of_nat maxDepth)) rootName
            = (Inr (Node rootName (getPropertyType h (VObject a)) None (Some cs)), w')
          \<and> expansion h maxDepth {a} 0 a cs
          \<and> (\<forall>j key. j < length cs \<and> members h a ! j = (key, SetterOnly) \<longrightarrow>
                cs ! j = Node key TUndefined (Some VUndefined) None))
     \<and> (\<forall>V d key nd. member_node h maxDepth V d (key, SetterOnly) nd \<longrightarrow>
            nd = Node key TUndefined (Some VUndefined) None)"
proof (intro conjI allI impI)
  from build_container [OF assms, of h w a rootName]
  obtain cs w' where b: "buildPropertyTree h w (VObject a) (Finite (of_nat maxDepth)) rootName
            = (Inr (Node rootName (getPropertyType h (VObject a)) None (Some cs)), w')"
    and e: "expansion h maxDepth {a} 0 a cs"
    by blast
  have "cs ! j = Node key TUndefined (Some VUndefined) None"
    if "j < length cs \<and> members h a ! j = (key, SetterOnly)" for j key
  proof -
    from e that have "member_node h maxDepth {a} 0 (key, SetterOnly) (cs ! j)"
      by (auto simp: expansion_def)
    then show ?thesis by (rule member_node_SetterOnly)
  qed
  with b e show "\<exists>cs w'. buildPropertyTree h w (VObject a) (Finite (of_nat maxDepth)) rootName
            = (Inr (Node rootName (getPropertyType h (VObject a)) None (Some cs)), w')
          \<and> expansion h maxDepth {a} 0 a cs
          \<and> (\<forall>j key. j < length cs \<and> members h a ! j = (key, SetterOnly) \<longrightarrow>
                cs ! j = Node key TUndefined (Some VUndefined) None)"
    by blast
next
  fix V d key nd
  assume "member_node h maxDepth V d (key, SetterOnly) nd"
  then show "nd = Node key TUndefined (Some VUndefined) None"
    by (rule member_node_SetterOnly)
qed

theorem C7_setter_only_witness:
  "\<exists>cs w'. buildPropertyTree setter_only 0 (VObject 0) (Finite 1) (str ''root'')
       = (Inr (Node (str ''root'') TObject None (Some cs)), w')
     \<and> cs ! 0 = Node (str ''x'') TUndefined (Some VUndefined) None"
proof -
  have m: "members setter_only 0 = [(str ''x'', SetterOnly)]"
    by (simp add: members_def setter_only_def)
  have ty: "getPropertyType setter_only (VObject 0) = TObject"
    by (simp add: getPropertyType_VObject setter_only_def)
  from C7_setter_only [of 1 setter_only 0 0 "str ''root''"]
  obtain cs w' where b: "buildPropertyTree setter_only 0 (VObject 0) (Finite 1) (str ''root'')
       = (Inr (Node (str ''root'') TObject None (Some cs)), w')"
    and e: "expansion setter_only 1 {0} 0 0 cs"
    and all: "\<forall>j key. j < length cs \<and> members setter_only 0 ! j = (key, SetterOnly) \<longrightarrow>
                cs ! j = Node key TUndefined (Some VUndefined) None"
    by (auto simp: ty)
  from e m have "length cs = 1" by (simp add: expansion_def)
  with all [rule_format, of 0 "str ''x''"] m b show ?thesis by auto
qed

text \<open>
  The child is not of kind null (the kind \<open>nothing\<close>) and its value is not \<open>null\<close>.
\<close>

theorem C7_not_null_counterexample:
  "\<exists>cs. fst (buildPropertyTree setter_only 0 (VObject 0) (Finite 1) (str ''root''))
       = Inr (Node (str ''root'') TObject None (Some cs))
     \<and> ntype (cs ! 0) \<noteq> TNull \<and> nvalue (cs ! 0) \<noteq> Some VNull"
  by (simp add: build_eval setter_only_def)

section \<open>Cycle detection along the path\<close>

text \<open>
  C10. The children that \<open>buildPropertyTree\<close> gives the root of a container \<open>a\<close> are an
  \<open>expansion\<close> of \<open>a\<close> with the path set \<open>{a}\<close>: by the rules of \<open>member_node\<close>, at every
  level a member that is a container within the depth bound is marked with the
  circular-reference marker exactly when its reference is among the containers on its
  own path from the root, and is expanded otherwise, its own members being judged
  against that path extended by itself. No state of other branches enters, so a container
  reached along two paths is expanded on both.
\<close>

theorem C10_path_scoped_cycles:
  assumes "0 < maxDepth"
  shows "(\<exists>cs w'. buildPropertyTree h w (VObject a) (Finite (of_nat maxDepth)) rootName
             = (Inr (Node rootName (getPropertyType h (VObject a)) None (Some cs)), w')
           \<and> expansion h maxDepth {a} 0 a cs)
     \<and> (\<forall>V d key b nd.
            member_node h maxDepth V d (key, Data (VObject b)) nd \<and> d + 1 < maxDepth \<longrightarrow>
              (nvalue nd = Some (VString CIRCULAR_REFERENCE_MARKER) \<longleftrightarrow> b \<in> V)
              \<and> (b \<notin> V \<longrightarrow>
                   (\<exists>cs. children nd = Some cs
                      \<and> expansion h maxDepth (insert b V) (d + 1) b cs)))"
proof (intro conjI allI impI)
  from build_container [OF assms, of h w a rootName]
  show "\<exists>cs w'. buildPropertyTree h w (VObject a) (Finite (of_nat maxDepth)) rootName
             = (Inr (Node rootName (getPropertyType h (VObject a)) None (Some cs)), w')
           \<and> expansion h maxDepth {a} 0 a cs"
    by blast
next
  fix V d key b nd
  assume "member_node h maxDepth V d (key, Data (VObject b)) nd \<and> d + 1 < maxDepth"
  then have m: "member_node h maxDepth V d (key, Data (VObject b)) nd"
    and d: "d + 1 < maxDepth"
    by simp_all
  from member_node_Data_container [OF m d]
  show "nvalue nd = Some (VString CIRCULAR_REFERENCE_MARKER) \<longleftrightarrow> b \<in> V"
    by (cases "b \<in> V") auto
  assume "b \<notin> V"
  with member_node_Data_container [OF m d]
  show "\<exists>cs. children nd = Some cs \<and> expansion h maxDepth (insert b V) (d + 1) b cs"
    by auto
qed

text \<open>
  In the diamond both properties of the root hold object 1: it is expanded under both,
  and under both its references to the root and to itself are marked.
\<close>

theorem C10_path_scoped_cycles_witness:
  "\<exists>cs w'. buildPropertyTree diamond 0 (VObject 0) (Finite 3) (str ''root'')
       = (Inr (Node (str ''root'') TObject None (Some cs)), w')
     \<and> expansion diamond 3 {0} 0 0 cs
     \<and> cs = [Node (str ''x'') TObject None (Some
           [Node (str ''up'') TObject (Some (VString CIRCULAR_REFERENCE_MARKER)) None,
            Node (str ''me'') TObject (Some (VString CIRCULAR_REFERENCE_MARKER)) None]),
         Node (str ''y'') TObject None (Some
           [Node (str ''up'') TObject (Some (VString CIRCULAR_REFERENCE_MARKER)) None,
            Node (str ''me'') TObject (Some (VString CIRCULAR_REFERENCE_MARKER)) None])]"
proof -
  from C10_path_scoped_cycles [of 3 diamond 0 0 "str ''root''"]
  obtain cs w' where "buildPropertyTree diamond 0 (VObject 0) (Finite 3) (str ''root'')
       = (Inr (Node (str ''root'') (getPropertyType diamond (VObject 0)) None (Some cs)), w')"
    and "expansion diamond 3 {0} 0 0 cs"
    by auto
  with diamond_depth3 show ?thesis by auto
qed

section \<open>Repeated runs\<close>

lemma try_child_pure:
  assumes "pure_property p"
  shows "try_child h maxDepth item label (get_member p) (t, q, w) =
     (fst (try_child h maxDepth item label (get_member p) (t, q, w0)),
      fst (snd (try_child h maxDepth item label (get_member p) (t, q, w0))), w)"
proof -
  define out where "out = fst (get_member p 0)"
  from assms have "get_member p w = (out, w)" and "get_member p w0 = (out, w0)"
    unfolding pure_property_def out_def by blast+
  then show ?thesis
    by (cases out) (simp_all add: try_child_def split: prod.splits)
qed

lemma fold_members_pure:
  assumes "\<forall>m \<in> set ms. pure_property (snd m)"
  shows "fold (\<lambda>(label, p). try_child h maxDepth item label (get_member p)) ms (t, q, w) =
     (fst (fold (\<lambda>(label, p). try_child h maxDepth item label (get_member p)) ms (t, q, w0)),
      fst (snd (fold (\<lambda>(label, p). try_child h maxDepth item label (get_member p)) ms
                  (t, q, w0))), w)"
  using assms
proof (induction ms arbitrary: t q)
  case Nil
  show ?case by simp
next
  case (Cons m ms)
  obtain label p where m: "m = (label, p)" by (cases m)
  with Cons.prems have p: "pure_property p" by simp
  obtain t1 q1 w1 where s: "try_child h maxDepth item label (get_member p) (t, q, w0) = (t1, q1, w1)"
    by (metis prod_cases3)
  from try_child_pure [OF p, of h maxDepth item label t q w w0] s
  have a: "try_child h maxDepth item label (get_member p) (t, q, w) = (t1, q1, w)" by simp
  from try_child_pure [OF p, of h maxDepth item label t q w0 w0] s
  have b: "try_child h maxDepth item label (get_member p) (t, q, w0) = (t1, q1, w0)" by simp
  from Cons.prems have "\<forall>m \<in> set ms. pure_property (snd m)" by simp
  from Cons.IH [OF this, of t1 q1] show ?case
    by (simp add: m a b)
qed

lemma while_queue_pure:
  assumes "pure_heap h"
  shows "while_queue h maxDepth t queue w = (fst (while_queue h maxDepth t queue w0), w)"
  using assms
proof (induction h maxDepth t queue w arbitrary: w0 rule: while_queue.induct)
  case (1 h maxDepth t w)
  show ?case by (simp add: while_queue.simps)
next
  case (2 h maxDepth t item rest w)
  from "2.prems" have pm: "\<forall>m \<in> set (members h (obj item)). pure_property (snd m)"
    by (simp add: pure_heap_def)
  obtain t1 q1 w1 where s0: "expand_item h maxDepth item (t, rest, w0) = (t1, q1, w1)"
    by (metis prod_cases3)
  from fold_members_pure [OF pm, of h maxDepth item t rest w0 w0] s0
  have e0: "expand_item h maxDepth item (t, rest, w0) = (t1, q1, w0)"
    by (simp add: expand_item_members)
  from fold_members_pure [OF pm, of h maxDepth item t rest w w0] s0
  have e: "expand_item h maxDepth item (t, rest, w) = (t1, q1, w)"
    by (simp add: expand_item_members)
  from "2.IH" [OF e [symmetric] refl "2.prems", of w0]
  show ?case by (simp add: e e0 while_queue.simps)
qed

text \<open>
  C9, as amended. On a pure object graph, \<open>buildPropertyTree\<close> followed by
  \<open>formatPropertyTreeToString\<close> gives the same text (or the same error) in every world,
  so two runs on the same input and depth agree.
\<close>

theorem C9_pure_runs_agree:
  assumes "pure_heap h"
  shows "fst (logPropertyTree host h w1 val maxDepth rootName)
       = fst (logPropertyTree host h w2 val maxDepth rootName)"
proof -
  have "fst (buildPropertyTree h w1 val maxDepth rootName)
      = fst (buildPropertyTree h w2 val maxDepth rootName)"
    using while_queue_pure [OF assms, of _ _ _ w1 w2]
    by (auto simp: buildPropertyTree_def Let_def split: jsval.splits prod.splits)
  then show ?thesis
    by (auto simp: logPropertyTree_def split: prod.splits sum.splits)
qed

theorem C9_pure_runs_agree_witness:
  "fst (logPropertyTree (\<lambda>v. []) self_ref 0 (VObject 0) (Finite 3) (str ''root''))
     = fst (logPropertyTree (\<lambda>v. []) self_ref 7 (VObject 0) (Finite 3) (str ''root''))"
proof -
  have "pure_heap self_ref"
    by (simp add: pure_heap_def members_def self_ref_def pure_property_def)
  then show ?thesis by (rule C9_pure_runs_agree)
qed

text \<open>
  A getter that counts its calls: the second run starts in the world the first run left
  and prints another value.
\<close>

theorem C9_stateful_getter_counterexample:
  "fst (logPropertyTree (\<lambda>v. []) ticking 0 (VObject 0) (Finite 1) (str ''root''))
     \<noteq> fst (logPropertyTree (\<lambda>v. []) ticking
              (snd (logPropertyTree (\<lambda>v. []) ticking 0 (VObject 0) (Finite 1) (str ''root'')))
              (VObject 0) (Finite 1) (str ''root''))"
  by (simp add: logPropertyTree_def build_eval ticking_def formatPropertyTreeToString_def
        value_suffix_def enumerate_eq_zip str_def CIRCULAR_REFERENCE_MARKER_def
        ACCESS_ERROR_MARKER_def)

section \<open>Rendering of text values\<close>







text \<open>
  The ellipsis is decided by the unescaped length: a text of 50 characters that ends in a
  newline loses the last character of its escaped form and gets no dots.
\<close>

lemma ellipsis_by_unescaped_length:
  "value_suffix (\<lambda>v. [])
       (Node (str ''a'') TString (Some (VString (replicate 49 97 @ [newline]))) None)
     \<noteq> spec_text_suffix (replicate 49 97 @ [newline])"
  apply (simp add: value_suffix_def spec_text_suffix_def ACCESS_ERROR_MARKER_def
      CIRCULAR_REFERENCE_MARKER_def str_def newline_def dquote_def)
  apply code_simp
  done

section \<open>Shape of the rendered text\<close>

lemma prefix_join_lines: "prefix l (join_lines (l # ls))"
  by (cases ls) simp_all

lemma last_join_lines:
  "ls \<noteq> [] \<Longrightarrow> last ls \<noteq> [] \<Longrightarrow> join_lines ls \<noteq> [] \<and> last (join_lines ls) = last (last ls)"
  by (induction ls rule: join_lines.induct) auto

lemma digit_not_newline: "(of_nat (48 + k mod 10) :: 16 word) \<noteq> newline"
proof
  assume "(of_nat (48 + k mod 10) :: 16 word) = newline"
  then have "unat (of_nat (48 + k mod 10) :: 16 word) = unat newline"
    by (rule arg_cong)
  moreover have "unat newline = 10"
    by (simp add: newline_def)
  moreover have "48 + k mod 10 < 65536"
    using mod_less_divisor [of 10 k] by linarith
  then have "unat (of_nat (48 + k mod 10) :: 16 word) = 48 + k mod 10"
    by (simp only: unat_of_nat) simp
  ultimately show False by linarith
qed

lemma digits10_last: "digits10 k \<noteq> [] \<and> last (digits10 k) \<noteq> newline"
proof (cases "k < 10")
  case True
  then have "k mod 10 = k" by simp
  with True digit_not_newline [of k] show ?thesis by (simp add: digits10.simps [of k])
next
  case False
  with digit_not_newline [of k] show ?thesis by (simp add: digits10.simps [of k])
qed

lemma String_of_clean:
  assumes "\<forall>v. ends_clean (host v)" and "\<forall>s. v \<noteq> VString s"
  shows "ends_clean (String_of host v)"
  using assms digits10_last
  by (cases v) (auto simp: ends_clean_def str_def newline_def)

lemma value_suffix_clean:
  assumes "\<forall>v. ends_clean (host v)"
  shows "ends_clean (value_suffix host node)"
proof (cases "nvalue node")
  case None
  then show ?thesis by (simp add: value_suffix_def ends_clean_def)
next
  case (Some v)
  show ?thesis
  proof (cases "\<exists>s. v = VString s")
    case True
    then show ?thesis using Some
      by (auto simp: value_suffix_def ends_clean_def CIRCULAR_REFERENCE_MARKER_def
            ACCESS_ERROR_MARKER_def str_def newline_def dquote_def)
  next
    case False
    then have "ends_clean (String_of host v)" using assms String_of_clean by blast
    moreover have "str '': '' \<noteq> [] \<and> last (str '': '') \<noteq> newline"
      by (simp add: str_def newline_def)
    ultimately have "ends_clean (str '': '' @ String_of host v)"
      by (cases "String_of host v = []") (auto simp: ends_clean_def)
    with False Some show ?thesis
      by (cases v) (auto simp: value_suffix_def ends_clean_def)
  qed
qed

lemma node_line_last:
  assumes "ends_clean sfx"
  shows "pre @ n @ str '' ('' @ type_name ty @ str '')'' @ sfx \<noteq> []
     \<and> last (pre @ n @ str '' ('' @ type_name ty @ str '')'' @ sfx) \<noteq> newline"
  using assms by (auto simp: ends_clean_def str_def newline_def)

lemma format_last:
  "\<forall>v. ends_clean (host v) \<Longrightarrow>
     formatNodeToString host t indent isLast \<noteq> []
     \<and> last (formatNodeToString host t indent isLast) \<noteq> newline"
proof (induction host t indent isLast rule: formatNodeToString.induct)
  case (1 host n ty v cs indent isLast)
  define pre where "pre = indent @ (if isLast then LAST_CONNECTOR else MID_CONNECTOR)"
  define line where "line = pre @ n @ str '' ('' @ type_name ty @ str '')''
                       @ value_suffix host (Node n ty v cs)"
  define ind where "ind = indent @ (if isLast then str ''   '' else BAR_INDENT)"
  have line: "line \<noteq> [] \<and> last line \<noteq> newline"
    unfolding line_def by (rule node_line_last) (rule value_suffix_clean, rule "1.prems")
  show ?case
  proof (cases "\<exists>xs. cs = Some xs \<and> xs \<noteq> []")
    case False
    then have "formatNodeToString host (Node n ty v cs) indent isLast = line"
      by (cases cs) (auto simp: Let_def line_def pre_def)
    with line show ?thesis by simp
  next
    case True
    then obtain xs where cs: "cs = Some xs" and xs: "xs \<noteq> []" by blast
    define rest where "rest = map (\<lambda>(index, child).
        formatNodeToString host child ind (index = length xs - 1)) (enumerate 0 xs)"
    have fmt: "formatNodeToString host (Node n ty v cs) indent isLast = join_lines (line # rest)"
      using xs by (simp add: cs Let_def line_def pre_def rest_def ind_def)
    have len: "length rest = length xs" by (simp add: rest_def)
    with xs have "rest \<noteq> []" by auto
    then have "last rest = rest ! (length xs - 1)"
      by (simp add: last_conv_nth len)
    also have "\<dots> = formatNodeToString host (xs ! (length xs - 1)) ind True"
      using xs by (simp add: rest_def nth_enumerate_eq)
    finally have lastrest: "last rest = formatNodeToString host (last xs) ind True"
      using xs by (simp add: last_conv_nth)
    have "(length xs - 1, last xs) \<in> set (enumerate 0 xs)"
      using xs by (simp add: in_set_enumerate_eq last_conv_nth)
    from xs have "0 < length xs" by simp
    from "1.IH" [OF refl refl cs this \<open>(length xs - 1, last xs) \<in> set (enumerate 0 xs)\<close> refl "1.prems"]
    have "formatNodeToString host (last xs) ind True \<noteq> []
      \<and> last (formatNodeToString host (last xs) ind True) \<noteq> newline"
      by (simp add: ind_def pre_def line_def)
    with lastrest \<open>rest \<noteq> []\<close> last_join_lines [of "line # rest"] fmt
    show ?thesis by simp
  qed
qed

lemma prefix_format: "prefix LAST_CONNECTOR (formatNodeToString host t [] True)"
proof (cases t)
  case (Node n ty v cs)
  define line where "line = LAST_CONNECTOR @ n @ str '' ('' @ type_name ty @ str '')''
                       @ value_suffix host (Node n ty v cs)"
  obtain rest where "formatNodeToString host t [] True = join_lines (line # rest)"
    by (simp add: Node Let_def line_def)
  moreover have "prefix LAST_CONNECTOR line" by (simp add: line_def)
  ultimately show ?thesis
    using prefix_join_lines [of line rest] by (metis prefix_order.trans)
qed

text \<open>
  C8. \<open>buildPropertyTree("hello", 1)\<close> is the node named root of kind string with value
  hello and no children; its rendering is the one line
  \<open>LAST_CONNECTOR root (string): "hello"\<close>; every rendered tree starts with the last-sibling
  connector; and the rendering does not end in a newline (the host's \<open>String\<close> of a number
  never does).
\<close>

theorem C8_hello:
  "buildPropertyTree h w (VString (str ''hello'')) (Finite 1) (str ''root'')
     = (Inr (Node (str ''root'') TString (Some (VString (str ''hello''))) None), w)
   \<and> formatPropertyTreeToString host
         (Node (str ''root'') TString (Some (VString (str ''hello''))) None)
       = LAST_CONNECTOR @ str ''root (string): '' @ [dquote] @ str ''hello'' @ [dquote]
   \<and> prefix LAST_CONNECTOR (formatPropertyTreeToString host t)
   \<and> ((\<forall>v. ends_clean (host v)) \<longrightarrow>
        formatPropertyTreeToString host t \<noteq> []
        \<and> last (formatPropertyTreeToString host t) \<noteq> newline)"
proof (intro conjI impI)
  show "buildPropertyTree h w (VString (str ''hello'')) (Finite 1) (str ''root'')
     = (Inr (Node (str ''root'') TString (Some (VString (str ''hello''))) None), w)"
    by (simp add: buildPropertyTree_def)
  show "formatPropertyTreeToString host
         (Node (str ''root'') TString (Some (VString (str ''hello''))) None)
       = LAST_CONNECTOR @ str ''root (string): '' @ [dquote] @ str ''hello'' @ [dquote]"
    by (simp add: formatPropertyTreeToString_def value_suffix_def Let_def str_def
          CIRCULAR_REFERENCE_MARKER_def ACCESS_ERROR_MARKER_def newline_def)
  show "prefix LAST_CONNECTOR (formatPropertyTreeToString host t)"
    unfolding formatPropertyTreeToString_def by (rule prefix_format)
next
  assume "\<forall>v. ends_clean (host v)"
  then show "formatPropertyTreeToString host t \<noteq> []"
    and "last (formatPropertyTreeToString host t) \<noteq> newline"
    unfolding formatPropertyTreeToString_def using format_last by blast+
qed

theorem C8_hello_witness:
  "formatPropertyTreeToString (\<lambda>v. []) (Node (str ''n'') TNull (Some VNull) None) \<noteq> []
   \<and> last (formatPropertyTreeToString (\<lambda>v. []) (Node (str ''n'') TNull (Some VNull) None))
        \<noteq> newline
   \<and> formatPropertyTreeToString (\<lambda>v. []) (Node (str ''n'') TNull (Some VNull) None)
        = LAST_CONNECTOR @ str ''n (null): null''"
  using C8_hello [of "\<lambda>a. JObject []" 0 "\<lambda>v. []" "Node (str ''n'') TNull (Some VNull) None"]
  by (simp add: ends_clean_def formatPropertyTreeToString_def value_suffix_def Let_def str_def
        CIRCULAR_REFERENCE_MARKER_def ACCESS_ERROR_MARKER_def)

end
